theory Spec2Isabelle
  imports Complex_Main
begin

section \<open>Atlas engine of GlbToolsWeb: shallow embedding\<close>

text \<open>
  The definitions follow \<^verbatim>\<open>src/scripts/atlas-cli.mjs\<close> (the offline engine, from
  \<^verbatim>\<open>processAtlas\<close> on) and \<^verbatim>\<open>src/web/src/atlas-worker.js\<close> (the browser
  engine). Pixel sizes, rect coordinates and counts are JavaScript numbers that hold
  integers: they are \<open>int\<close> (sizes) or \<open>nat\<close> (counts, indices). Scale factors, areas,
  matrix entries and texture coordinates are JavaScript doubles or 32-bit floats; they are
  modelled by \<open>real\<close>, so rounding is not part of the model. A slot of a
  \<^verbatim>\<open>Float32Array\<close> is a \<open>real option\<close>, where \<open>None\<close> is NaN (what
  \<^verbatim>\<open>undefined\<close> becomes when it is stored in such an array).
\<close>

subsection \<open>Powers of two\<close>

definition is_pow2 :: "int \<Rightarrow> bool" where
  "is_pow2 n = (\<exists>k::nat. n = 2 ^ k)"

text \<open>
  \<^verbatim>\<open>function nearestPow2(n) { let p = 1; while (p * 2 <= n) p *= 2; return p; }\<close>
  The loop variable is a double and only ever holds a positive power of two; the
  conjunct \<open>0 < p\<close> makes the recursion well-founded and is true on every call made
  from \<open>nearestPow2\<close> (lemma \<open>nearestPow2_loop_pos\<close>).
\<close>

function nearestPow2_loop :: "int \<Rightarrow> int \<Rightarrow> int" where
  "nearestPow2_loop p n = (if 0 < p \<and> p * 2 \<le> n then nearestPow2_loop (p * 2) n else p)"
  by pat_completeness auto
termination
  by (relation "measure (\<lambda>(p, n). nat (n - p))") auto

declare nearestPow2_loop.simps [simp del]

definition nearestPow2 :: "int \<Rightarrow> int" where
  "nearestPow2 n = nearestPow2_loop 1 n"

text \<open>
  \<^verbatim>\<open>nearestPow2\<close> of a value that is \<^verbatim>\<open>undefined\<close> or NaN: the loop condition
  \<^verbatim>\<open>2 <= NaN\<close> is false at once, so the result is 1.
\<close>

definition nearestPow2_js :: "int option \<Rightarrow> int" where
  "nearestPow2_js n = (case n of None \<Rightarrow> 1 | Some v \<Rightarrow> nearestPow2 v)"

text \<open>
  \<^verbatim>\<open>function clampPow2(n, min, max) { let p = nearestPow2(n);
     p = Math.max(min, Math.min(max, p)); return p; }\<close>
\<close>

definition clampPow2 :: "int \<Rightarrow> int \<Rightarrow> int \<Rightarrow> int" where
  "clampPow2 n mn mx = max mn (min mx (nearestPow2 n))"

text \<open>
  \<^verbatim>\<open>function nextPow2(n) { let p = 1; while (p < n) p <<= 1; return p; }\<close> and the
  identical \<^verbatim>\<open>nextPow2Ceil\<close>. The shift is a 32-bit signed shift: \<open>shl32\<close> writes
  the wrap-around out. Above \<open>2 ^ 30\<close> the variable wraps to \<open>- 2 ^ 31\<close> and then to 0,
  where the loop spins forever; not returning is the value \<open>None\<close>.
\<close>

definition shl32 :: "int \<Rightarrow> int" where
  "shl32 p = (let q = (2 * p) mod 4294967296 in if 2147483648 \<le> q then q - 4294967296 else q)"

partial_function (option) nextPow2_loop :: "int \<Rightarrow> int \<Rightarrow> int option" where
  "nextPow2_loop p n = (if p < n then nextPow2_loop (shl32 p) n else Some p)"

definition nextPow2 :: "int \<Rightarrow> int option" where
  "nextPow2 n = nextPow2_loop 1 n"

definition nextPow2Ceil :: "int \<Rightarrow> int option" where
  "nextPow2Ceil n = nextPow2_loop 1 n"

subsection \<open>Texture Sizer\<close>

text \<open>
  \<^verbatim>\<open>suggestSizeBestFill(matArea, maxMatArea, maxSize, srcW, srcH)\<close>. The list
  \<open>allowed\<close> is empty when \<open>maxSize < 256\<close>; then \<^verbatim>\<open>allowed[0]\<close> is
  \<^verbatim>\<open>undefined\<close>, the fold returns \<^verbatim>\<open>undefined\<close> and
  \<^verbatim>\<open>Math.max(undefined, ...)\<close> in \<^verbatim>\<open>clampPow2\<close> is NaN: the result \<open>None\<close>.
\<close>

definition allowedSizes :: "int \<Rightarrow> int list" where
  "allowedSizes maxSize = filter (\<lambda>n. n \<le> maxSize) [256, 512, 1024, 2048, 4096]"

definition relativeArea :: "real \<Rightarrow> real \<Rightarrow> real" where
  "relativeArea matArea maxMatArea = (if 0 < maxMatArea then matArea / maxMatArea else 0)"

definition bucketOf :: "real \<Rightarrow> int" where
  "bucketOf rel = (if 0.6 \<le> rel then 2048 else if 0.35 \<le> rel then 1024
                   else if 0.15 \<le> rel then 512 else 256)"

definition suggestSizeBestFill :: "real \<Rightarrow> real \<Rightarrow> int \<Rightarrow> int \<Rightarrow> int \<Rightarrow> int option" where
  "suggestSizeBestFill matArea maxMatArea maxSize srcW srcH =
     (let allowed = allowedSizes maxSize;
          base = nearestPow2 (min (min srcW srcH) maxSize);
          rel = relativeArea matArea maxMatArea;
          target = (if 0.6 \<le> rel then max base 2048
                    else if 0.35 \<le> rel then max base 1024
                    else if 0.15 \<le> rel then max base 512
                    else max base 256)
      in case allowed of
           [] \<Rightarrow> None
         | a0 # _ \<Rightarrow>
             Some (clampPow2 (foldl (\<lambda>acc v. if v \<le> target then v else acc) a0 allowed)
                     a0 maxSize))"

datatype sizeMode = BestFill | Buckets

text \<open>
  The target sizing of \<^verbatim>\<open>atlasMap\<close> (the lines after the resize ceiling):
  \<open>hasAreas\<close> is \<^verbatim>\<open>materialAreas.size > 0\<close>, \<open>width\<close> and \<open>height\<close> are the
  dimensions of the source image at that point. The entry ends up square, both sides
  equal to the result.
\<close>

definition targetSizing ::
  "bool \<Rightarrow> sizeMode \<Rightarrow> real \<Rightarrow> real \<Rightarrow> int \<Rightarrow> int \<Rightarrow> int \<Rightarrow> int" where
  "targetSizing hasAreas mode matArea maxMatArea maxSize width height =
     (let t0 = Some (nearestPow2 (min width maxSize));
          t1 = (if hasAreas then
                  (case mode of
                     BestFill \<Rightarrow> suggestSizeBestFill matArea maxMatArea maxSize width height
                   | Buckets \<Rightarrow>
                       (let norm = matArea / maxMatArea
                        in if 0.5 \<le> norm then Some 2048 else if 0.25 \<le> norm then Some 1024
                           else if 0.1 \<le> norm then Some 512 else Some 256))
                else t0);
          t2 = max 256 (min maxSize (nearestPow2_js t1))
      in min t2 (nearestPow2 (max 1 (min width height))))"

subsection \<open>Geometry Baker: the normal matrix\<close>

text \<open>
  A 4x4 transform is the array of its 16 entries, column-major; \<open>m ! i\<close> is
  \<^verbatim>\<open>m[i]\<close>. \<^verbatim>\<open>computeNormalMatrix\<close> of \<^verbatim>\<open>atlas-cli.mjs\<close> returns the 9 entries of a
  3x3 matrix; \<^verbatim>\<open>if (!det) det = 1;\<close> is its only treatment of a zero determinant.
\<close>

definition computeNormalMatrix :: "real list \<Rightarrow> real list" where
  "computeNormalMatrix m =
     (let a00 = m ! 0; a01 = m ! 4; a02 = m ! 8;
          a10 = m ! 1; a11 = m ! 5; a12 = m ! 9;
          a20 = m ! 2; a21 = m ! 6; a22 = m ! 10;
          b01 = a22 * a11 - a12 * a21;
          b11 = - a22 * a10 + a12 * a20;
          b21 = a21 * a10 - a11 * a20;
          det0 = a00 * b01 + a01 * b11 + a02 * b21;
          det = (if det0 = 0 then 1 else det0);
          invDet = 1 / det;
          m00 = b01 * invDet;
          m01 = (- a22 * a01 + a02 * a21) * invDet;
          m02 = (a12 * a01 - a02 * a11) * invDet;
          m10 = b11 * invDet;
          m11 = (a22 * a00 - a02 * a20) * invDet;
          m12 = (- a12 * a00 + a02 * a10) * invDet;
          m20 = b21 * invDet;
          m21 = (- a21 * a00 + a01 * a20) * invDet;
          m22 = (a11 * a00 - a01 * a10) * invDet
      in [m00, m10, m20, m01, m11, m21, m02, m12, m22])"

text \<open>
  \<^verbatim>\<open>computeNormalMatrix\<close> of \<^verbatim>\<open>atlas-worker.js\<close> (the mesh-merger worker has the same
  text): it returns 16 entries and \<^verbatim>\<open>if (!det) return identityMat4();\<close>.
\<close>

definition identityMat4 :: "real list" where
  "identityMat4 = [1, 0, 0, 0, 0, 1, 0, 0, 0, 0, 1, 0, 0, 0, 0, 1]"

definition computeNormalMatrix_worker :: "real list \<Rightarrow> real list" where
  "computeNormalMatrix_worker m =
     (let a00 = m ! 0; a01 = m ! 1; a02 = m ! 2;
          a10 = m ! 4; a11 = m ! 5; a12 = m ! 6;
          a20 = m ! 8; a21 = m ! 9; a22 = m ! 10;
          b01 = a22 * a11 - a12 * a21;
          b11 = - a22 * a10 + a12 * a20;
          b21 = a21 * a10 - a11 * a20;
          det0 = a00 * b01 + a01 * b11 + a02 * b21
      in if det0 = 0 then identityMat4
         else (let det = 1 / det0
               in [b01 * det,
                   (- a22 * a01 + a02 * a21) * det,
                   (a12 * a01 - a02 * a11) * det,
                   0,
                   b11 * det,
                   (a22 * a00 - a02 * a20) * det,
                   (- a12 * a00 + a02 * a10) * det,
                   0,
                   b21 * det,
                   (- a21 * a00 + a01 * a20) * det,
                   (a11 * a00 - a01 * a10) * det,
                   0, 0, 0, 0, 1]))"

text \<open>
  The determinant of the upper-left 3x3 block of a column-major 4x4 transform, by the
  rule of Sarrus; the 3x3 identity as the 9 entries \<^verbatim>\<open>computeNormalMatrix\<close> returns.
\<close>

definition det3x3 :: "real list \<Rightarrow> real" where
  "det3x3 m = m ! 0 * m ! 5 * m ! 10 + m ! 4 * m ! 9 * m ! 2 + m ! 8 * m ! 1 * m ! 6
            - m ! 8 * m ! 5 * m ! 2 - m ! 4 * m ! 1 * m ! 10 - m ! 0 * m ! 9 * m ! 6"

definition identityMat3 :: "real list" where
  "identityMat3 = [1, 0, 0, 0, 1, 0, 0, 0, 1]"

subsection \<open>Primitive Merger\<close>

text \<open>
  An accessor of the document model: its element type, its \<^verbatim>\<open>Float32Array\<close> and the
  value of \<^verbatim>\<open>getCount()\<close>. The document model (glTF-Transform) is not part of the
  sources, so what \<^verbatim>\<open>getCount()\<close> returns is a field of the record. Index arrays are
  unsigned integer arrays; the constructors of the typed arrays reduce each element
  modulo the element width.
\<close>

type_synonym f32 = "real option"

datatype atype = SCALAR | VEC2 | VEC3 | VEC4

record accessor =
  accName :: string
  atype :: atype
  array :: "f32 list"
  count :: nat

text \<open>
  The semantic of a vertex attribute: \<open>TEXCOORD n\<close> is the name \<^verbatim>\<open>TEXCOORD_n\<close>.
\<close>

datatype semantic = POSITION | NORMAL | TANGENT | TEXCOORD nat | COLOR nat | OtherSemantic string

datatype indexArray = Uint16Array "nat list" | Uint32Array "nat list"

fun elems :: "indexArray \<Rightarrow> nat list" where
  "elems (Uint16Array xs) = xs"
| "elems (Uint32Array xs) = xs"

definition newUint16Array :: "nat list \<Rightarrow> indexArray" where
  "newUint16Array xs = Uint16Array (map (\<lambda>i. i mod 65536) xs)"

definition newUint32Array :: "nat list \<Rightarrow> indexArray" where
  "newUint32Array xs = Uint32Array (map (\<lambda>i. i mod 4294967296) xs)"

record primitive =
  attributes :: "(semantic \<times> accessor) list"
  indices :: "indexArray option"
  material :: "nat option"

definition getAttribute :: "primitive \<Rightarrow> semantic \<Rightarrow> accessor option" where
  "getAttribute p name = map_of (attributes p) name"

text \<open>
  \<^verbatim>\<open>addVec3\<close>, \<^verbatim>\<open>addVec4\<close> and \<^verbatim>\<open>addVec2\<close> of \<^verbatim>\<open>mergePrimitivesIntoOne\<close>
  (\<^verbatim>\<open>addVecN\<close> in the worker): the loop steps through the array by the element size and
  pushes that many slots; a slot past the end of the array reads \<^verbatim>\<open>undefined\<close>, which
  the \<^verbatim>\<open>Float32Array\<close> built from the result stores as NaN.
\<close>

fun addVec3 :: "f32 list \<Rightarrow> f32 list \<Rightarrow> f32 list" where
  "addVec3 (a # b # c # rest) arr = addVec3 rest (arr @ [a, b, c])"
| "addVec3 [a, b] arr = arr @ [a, b, None]"
| "addVec3 [a] arr = arr @ [a, None, None]"
| "addVec3 [] arr = arr"

fun addVec4 :: "f32 list \<Rightarrow> f32 list \<Rightarrow> f32 list" where
  "addVec4 (a # b # c # d # rest) arr = addVec4 rest (arr @ [a, b, c, d])"
| "addVec4 [a, b, c] arr = arr @ [a, b, c, None]"
| "addVec4 [a, b] arr = arr @ [a, b, None, None]"
| "addVec4 [a] arr = arr @ [a, None, None, None]"
| "addVec4 [] arr = arr"

fun addVec2 :: "f32 list \<Rightarrow> f32 list \<Rightarrow> f32 list" where
  "addVec2 (a # b # rest) arr = addVec2 rest (arr @ [a, b])"
| "addVec2 [a] arr = arr @ [a, None]"
| "addVec2 [] arr = arr"

definition addAttr :: "(f32 list \<Rightarrow> f32 list \<Rightarrow> f32 list) \<Rightarrow> accessor option \<Rightarrow> f32 list \<Rightarrow> f32 list" where
  "addAttr add attr arr = (case attr of None \<Rightarrow> arr | Some a \<Rightarrow> add (array a) arr)"

text \<open>
  The arrays that the loop over the primitives fills, and one turn of that loop. A
  primitive without \<^verbatim>\<open>POSITION\<close> takes the \<^verbatim>\<open>continue\<close>.
\<close>

record mergeAcc =
  positions :: "f32 list"
  normals :: "f32 list"
  tangents :: "f32 list"
  uvs :: "f32 list"
  indicesAcc :: "nat list"
  indexBase :: nat

definition emptyAcc :: mergeAcc where
  "emptyAcc = \<lparr>positions = [], normals = [], tangents = [], uvs = [], indicesAcc = [],
               indexBase = 0\<rparr>"

definition collectPrim :: "mergeAcc \<Rightarrow> primitive \<Rightarrow> mergeAcc" where
  "collectPrim acc prim =
     (case getAttribute prim POSITION of
        None \<Rightarrow> acc
      | Some pos \<Rightarrow>
          \<lparr>positions = addAttr addVec3 (Some pos) (positions acc),
           normals = addAttr addVec3 (getAttribute prim NORMAL) (normals acc),
           tangents = addAttr addVec4 (getAttribute prim TANGENT) (tangents acc),
           uvs = addAttr addVec2 (getAttribute prim (TEXCOORD 0)) (uvs acc),
           indicesAcc =
             (case indices prim of
                Some idx \<Rightarrow> indicesAcc acc @ map (\<lambda>i. i + indexBase acc) (elems idx)
              | None \<Rightarrow> indicesAcc acc @ map (\<lambda>i. i + indexBase acc) [0 ..< count pos]),
           indexBase = indexBase acc + count pos\<rparr>)"

definition collectPrims :: "primitive list \<Rightarrow> mergeAcc" where
  "collectPrims prims = foldl collectPrim emptyAcc prims"

text \<open>
  \<^verbatim>\<open>createAccessor(arr, type)\<close> and the accessor of the merged indices. The index array
  is a \<^verbatim>\<open>Uint32Array\<close> exactly when \<^verbatim>\<open>indices.length > 65535\<close>.
\<close>

fun elementSize :: "atype \<Rightarrow> nat" where
  "elementSize SCALAR = 1"
| "elementSize VEC2 = 2"
| "elementSize VEC3 = 3"
| "elementSize VEC4 = 4"

definition createAccessor :: "f32 list \<Rightarrow> atype \<Rightarrow> accessor" where
  "createAccessor arr ty =
     \<lparr>accName = [], atype = ty, array = arr, count = length arr div elementSize ty\<rparr>"

definition mergedIndexArray :: "nat list \<Rightarrow> indexArray" where
  "mergedIndexArray idxs =
     (if length idxs > 65535 then newUint32Array idxs else newUint16Array idxs)"

definition mergedAttributes :: "mergeAcc \<Rightarrow> (semantic \<times> accessor) list" where
  "mergedAttributes acc =
     [(POSITION, createAccessor (positions acc) VEC3)]
     @ (if length (normals acc) = length (positions acc)
        then [(NORMAL, createAccessor (normals acc) VEC3)] else [])
     @ (if real (length (tangents acc)) = real (length (positions acc)) / 3 * 4
        then [(TANGENT, createAccessor (tangents acc) VEC4)] else [])
     @ (if real (length (uvs acc)) = real (length (positions acc)) / 3 * 2
        then [(TEXCOORD 0, createAccessor (uvs acc) VEC2)] else [])"

text \<open>
  \<^verbatim>\<open>mergePrimitivesIntoOne(mesh, doc)\<close>: the mesh is the list of its primitives, and the
  result is the list after the call.
\<close>

definition mergePrimitivesIntoOne :: "primitive list \<Rightarrow> primitive list" where
  "mergePrimitivesIntoOne prims =
     (if length prims \<le> 1 then prims
      else (let acc = collectPrims prims
            in if positions acc = [] \<or> indicesAcc acc = [] then prims
               else [\<lparr>attributes = mergedAttributes acc,
                      indices = Some (mergedIndexArray (indicesAcc acc)),
                      material = material (hd prims)\<rparr>]))"

text \<open>The total vertex count of the primitives that contribute to a merge.\<close>

definition totalVertexCount :: "primitive list \<Rightarrow> nat" where
  "totalVertexCount prims =
     sum_list (map (\<lambda>p. case getAttribute p POSITION of None \<Rightarrow> 0 | Some pos \<Rightarrow> count pos) prims)"

text \<open>
  A mesh for the index width: a primitive over a vertex buffer of 65536 vertices that
  draws one triangle, and a second one-triangle primitive.
\<close>

definition bigVertexBuffer :: accessor where
  "bigVertexBuffer = \<lparr>accName = [], atype = VEC3, array = replicate 196608 (Some 0), count = 65536\<rparr>"

definition oneTriangle :: accessor where
  "oneTriangle = \<lparr>accName = [], atype = VEC3,
      array = [Some 0, Some 0, Some 0, Some 1, Some 0, Some 0, Some 0, Some 1, Some 0], count = 3\<rparr>"

definition wideMesh :: "primitive list" where
  "wideMesh =
     [\<lparr>attributes = [(POSITION, bigVertexBuffer)], indices = Some (Uint32Array [0, 1, 2]),
       material = Some 0\<rparr>,
      \<lparr>attributes = [(POSITION, oneTriangle)], indices = Some (Uint16Array [0, 1, 2]),
       material = Some 0\<rparr>]"

subsection \<open>UV Remapper\<close>

text \<open>
  Arithmetic on the slots of a \<^verbatim>\<open>Float32Array\<close>: NaN is absorbing.
\<close>

definition fmul :: "f32 \<Rightarrow> real \<Rightarrow> f32" where
  "fmul a c = map_option (\<lambda>v. v * c) a"

definition fadd :: "f32 \<Rightarrow> f32 \<Rightarrow> f32" where
  "fadd a b = (case a of None \<Rightarrow> None | Some v \<Rightarrow> map_option (\<lambda>w. v + w) b)"

definition fsub :: "f32 \<Rightarrow> f32 \<Rightarrow> f32" where
  "fsub a b = (case a of None \<Rightarrow> None | Some v \<Rightarrow> map_option (\<lambda>w. v - w) b)"

text \<open>
  The document model, as far as the atlas engine reads it. A texture has an identity
  (\<open>texId\<close>: Map keys are texture objects), a name and an image; \<open>texImage\<close> is
  \<open>None\<close> when \<^verbatim>\<open>getImage()\<close> is null, and otherwise what \<^verbatim>\<open>sizeOf\<close> makes of
  the image: its dimensions (0 where \<^verbatim>\<open>sizeOf\<close> gives none), or no recognisable format
  at all, on which \<^verbatim>\<open>sizeOf\<close> itself throws. A texture-info carries the texcoord index
  and the \<^verbatim>\<open>KHR_texture_transform\<close>, if any. A material has an identity, a name, and
  per channel the texture that the channel's getter returns and its texture-info.
\<close>

datatype channel = Basecolor | Normal | Orm | Emissive

datatype imageInfo = Dimensions int int | Undetectable

record texture =
  texId :: nat
  texName :: string
  texImage :: "imageInfo option"

record texTransform =
  offset :: "real \<times> real"
  scale :: "real \<times> real"
  rotation :: real

record textureInfo =
  texCoord :: nat
  transform :: "texTransform option"

record material =
  matId :: nat
  matName :: string
  matTextures :: "channel \<Rightarrow> texture option"
  matInfos :: "channel \<Rightarrow> textureInfo option"

text \<open>
  A texture entry of a channel pass, and a rect: of a packer bin (\<open>rectData\<close> set), of
  the layout record (\<open>rectTexture\<close> and \<open>rectMaterials\<close> set, names) or of a reuse
  pass (all of them). The mapping is what \<^verbatim>\<open>atlasMap\<close> keeps per material
  (\<^verbatim>\<open>materialMap\<close>); \<open>mapWidth\<close> and \<open>mapHeight\<close> are the atlas dimensions.
\<close>

record entry =
  entryTexture :: "texture option"
  entryWidth :: int
  entryHeight :: int
  entryMaterials :: "material list"

record rect =
  rectX :: int
  rectY :: int
  rectWidth :: int
  rectHeight :: int
  rectTexture :: "string option"
  rectMaterials :: "string list option"
  rectData :: "entry option"

record mapping =
  mapRect :: rect
  mapWidth :: int
  mapHeight :: int
  texCoordIndex :: nat
  hasTransform :: bool

definition mappingFor :: "bool \<Rightarrow> rect \<Rightarrow> int \<Rightarrow> int \<Rightarrow> textureInfo option \<Rightarrow> mapping" where
  "mappingFor hasTexTransformExt r w h info =
     \<lparr>mapRect = r, mapWidth = w, mapHeight = h,
      texCoordIndex = (case info of None \<Rightarrow> 0 | Some i \<Rightarrow> texCoord i),
      hasTransform = (hasTexTransformExt \<and> (case info of None \<Rightarrow> False | Some i \<Rightarrow> transform i \<noteq> None))\<rparr>"

text \<open>
  \<^verbatim>\<open>bakeTextureTransformInPlace(arr, t)\<close>: scale, rotate about the origin, offset. On
  an odd last slot \<^verbatim>\<open>arr[i + 1]\<close> is \<^verbatim>\<open>undefined\<close>, so the slot becomes NaN; the
  write past the end is dropped.
\<close>

fun bakeLoop :: "texTransform \<Rightarrow> f32 list \<Rightarrow> f32 list" where
  "bakeLoop t (u # v # rest) =
     (let su = fmul u (fst (scale t)); sv = fmul v (snd (scale t));
          ru = fsub (fmul su (cos (rotation t))) (fmul sv (sin (rotation t)));
          rv = fadd (fmul su (sin (rotation t))) (fmul sv (cos (rotation t)))
      in fadd ru (Some (fst (offset t))) # fadd rv (Some (snd (offset t))) # bakeLoop t rest)"
| "bakeLoop t [u] = [None]"
| "bakeLoop t [] = []"

definition bakeTextureTransformInPlace :: "f32 list \<Rightarrow> texTransform option \<Rightarrow> f32 list" where
  "bakeTextureTransformInPlace arr t = (case t of None \<Rightarrow> arr | Some tt \<Rightarrow> bakeLoop tt arr)"

text \<open>
  The remap loop of \<^verbatim>\<open>atlasMap\<close>: \<^verbatim>\<open>dst[i] = u * scaleU + offsetU\<close>,
  \<^verbatim>\<open>dst[i + 1] = v * scaleV + offsetV\<close>; on an odd last slot the write of
  \<^verbatim>\<open>dst[i + 1]\<close> falls outside \<^verbatim>\<open>dst\<close> and is dropped.
\<close>

fun remapLoop :: "real \<Rightarrow> real \<Rightarrow> real \<Rightarrow> real \<Rightarrow> f32 list \<Rightarrow> f32 list" where
  "remapLoop scaleU scaleV offsetU offsetV (u # v # rest) =
     fadd (fmul u scaleU) (Some offsetU) # fadd (fmul v scaleV) (Some offsetV)
       # remapLoop scaleU scaleV offsetU offsetV rest"
| "remapLoop scaleU scaleV offsetU offsetV [u] = [fadd (fmul u scaleU) (Some offsetU)]"
| "remapLoop scaleU scaleV offsetU offsetV [] = []"

definition remapArray :: "rect \<Rightarrow> int \<Rightarrow> int \<Rightarrow> f32 list \<Rightarrow> f32 list" where
  "remapArray r aw ah working =
     remapLoop (real_of_int (rectWidth r) / real_of_int aw) (real_of_int (rectHeight r) / real_of_int ah)
               (real_of_int (rectX r) / real_of_int aw) (real_of_int (rectY r) / real_of_int ah) working"



text \<open>
  \<^verbatim>\<open>nextTexcoordIndex(prim)\<close> reads the \<^emph>\<open>names of the accessors\<close>
  (\<^verbatim>\<open>attr.getName()\<close>) through \<^verbatim>\<open>/^TEXCOORD_(\d+)$/\<close> and returns one more than the
  largest number found, 0 when no name has that form.
\<close>

definition digitVal :: "char \<Rightarrow> nat option" where
  "digitVal c = (if c \<in> set ''0123456789'' then Some (of_char c - 48) else None)"

fun parseDigits :: "nat \<Rightarrow> string \<Rightarrow> nat option" where
  "parseDigits n [] = Some n"
| "parseDigits n (c # cs) =
     (case digitVal c of None \<Rightarrow> None | Some d \<Rightarrow> parseDigits (10 * n + d) cs)"

definition texcoordOfName :: "string \<Rightarrow> nat option" where
  "texcoordOfName s =
     (if take 9 s = ''TEXCOORD_'' \<and> drop 9 s \<noteq> [] then parseDigits 0 (drop 9 s) else None)"

definition nextTexcoordIndex :: "primitive \<Rightarrow> nat" where
  "nextTexcoordIndex prim =
     nat (foldl (\<lambda>mx a. case texcoordOfName (accName a) of None \<Rightarrow> mx | Some i \<Rightarrow> max mx (int i))
            (- 1) (map snd (attributes prim)) + 1)"

text \<open>
  \<^verbatim>\<open>prim.setAttribute(name, accessor)\<close>: the attribute is replaced where it stands, or
  added at the end.
\<close>

fun updateAttr :: "semantic \<Rightarrow> accessor \<Rightarrow> (semantic \<times> accessor) list \<Rightarrow> (semantic \<times> accessor) list" where
  "updateAttr k v [] = [(k, v)]"
| "updateAttr k v ((k', v') # rest) =
     (if k' = k then (k, v) # rest else (k', v') # updateAttr k v rest)"

definition setAttribute :: "primitive \<Rightarrow> semantic \<Rightarrow> accessor \<Rightarrow> primitive" where
  "setAttribute prim k v = prim\<lparr>attributes := updateAttr k v (attributes prim)\<rparr>"

datatype error =
    CannotReadDimensions nat
  | UnsupportedImage nat
  | CouldNotPack
  | CouldNotFitSingleAtlas
  | NullDereference

text \<open>
  One turn of the remap loop of \<^verbatim>\<open>atlasMap\<close> for a primitive whose material has the
  mapping \<open>m\<close> and the texture-info \<open>info\<close>. The result is the primitive and the
  texture-info after the turn; the primitive is returned as it was on the
  \<^verbatim>\<open>continue\<close>. The accessor that receives the remapped array is the one attached at
  \<^verbatim>\<open>TEXCOORD_uvSet\<close>, and it is attached at \<^verbatim>\<open>TEXCOORD_0\<close> as well. The flag
  \<open>hasTransform\<close> is the one stored in the mapping, the transform is read from the
  texture-info at the time of the turn; with the flag set and no texture-info the read
  of \<^verbatim>\<open>info.getExtension\<close> is a TypeError. Without a texture-info the last lines
  set the texcoord of the texture-info that the material has once the atlas texture is
  set on it (a fresh one: texcoord 0, no transform).
\<close>

definition remapPrimitive ::
  "mapping \<Rightarrow> textureInfo option \<Rightarrow> primitive \<Rightarrow> error + (primitive \<times> textureInfo option)" where
  "remapPrimitive m info prim =
     (case getAttribute prim (TEXCOORD (texCoordIndex m)) of
        None \<Rightarrow> Inr (prim, info)
      | Some uvAcc0 \<Rightarrow>
          (let clonedUV = array uvAcc0;
               prim1 = setAttribute prim (TEXCOORD (texCoordIndex m)) (createAccessor clonedUV VEC2)
           in if hasTransform m then
                (case info of
                   None \<Rightarrow> Inl NullDereference
                 | Some i \<Rightarrow>
                     (let newSet = nextTexcoordIndex prim1;
                          cloned = bakeTextureTransformInPlace clonedUV (transform i);
                          dst = remapArray (mapRect m) (mapWidth m) (mapHeight m) cloned;
                          prim2 = setAttribute prim1 (TEXCOORD newSet) (createAccessor dst VEC2);
                          prim3 = setAttribute prim2 (TEXCOORD 0) (createAccessor dst VEC2)
                      in Inr (prim3, Some (i\<lparr>texCoord := 0, transform := None\<rparr>))))
              else
                (let dst = remapArray (mapRect m) (mapWidth m) (mapHeight m) clonedUV;
                     prim2 = setAttribute prim1 (TEXCOORD (texCoordIndex m)) (createAccessor dst VEC2);
                     prim3 = setAttribute prim2 (TEXCOORD 0) (createAccessor dst VEC2)
                 in Inr (prim3,
                      (case info of
                         None \<Rightarrow> Some \<lparr>texCoord = 0, transform = None\<rparr>
                       | Some i \<Rightarrow> Some (i\<lparr>texCoord := 0\<rparr>))))))"

text \<open>The array of an attribute of a primitive, when it has the attribute.\<close>

definition attributeArray :: "primitive \<Rightarrow> semantic \<Rightarrow> f32 list option" where
  "attributeArray prim k = map_option array (getAttribute prim k)"

text \<open>
  The rect of the spec's remap example (a 256x256 rect at (256, 0) of a 1024x1024 atlas),
  a primitive that has only a \<^verbatim>\<open>TEXCOORD_0\<close> set, a texture-info without transform
  and one with a transform.
\<close>

definition exampleRect :: rect where
  "exampleRect = \<lparr>rectX = 256, rectY = 0, rectWidth = 256, rectHeight = 256,
                  rectTexture = None, rectMaterials = None, rectData = None\<rparr>"

definition uvPrim :: "f32 list \<Rightarrow> primitive" where
  "uvPrim arr = \<lparr>attributes = [(TEXCOORD 0, createAccessor arr VEC2)], indices = None,
                 material = Some 0\<rparr>"

definition plainInfo :: textureInfo where
  "plainInfo = \<lparr>texCoord = 0, transform = None\<rparr>"

definition shiftedInfo :: textureInfo where
  "shiftedInfo = \<lparr>texCoord = 0,
                   transform = Some \<lparr>offset = (1 / 2, 0), scale = (1 / 2, 1), rotation = 0\<rparr>\<rparr>"

subsection \<open>Atlas Packer\<close>

text \<open>
  A pack item, and a bin of the packer. The rectangle packer itself
  (\<^verbatim>\<open>MaxRectsPacker\<close> of the package \<^verbatim>\<open>maxrects-packer\<close>) is not part of the sources:
  it is a parameter, the function that maps the bin size, the padding and the items to
  the bins it fills (\<^verbatim>\<open>new MaxRectsPacker(size, size, padding, ...)\<close>,
  \<^verbatim>\<open>addArray(rects)\<close>, \<^verbatim>\<open>bins\<close>).
\<close>

record packItem =
  itemId :: nat
  itemWidth :: int
  itemHeight :: int
  itemData :: entry

record bin =
  binWidth :: int
  binHeight :: int
  binRects :: "rect list"

type_synonym packer = "int \<Rightarrow> int \<Rightarrow> packItem list \<Rightarrow> bin list"

text \<open>
  \<^verbatim>\<open>packIntoAtlas(rects, maxSize, padding, maxBins)\<close>: the trial size starts at the next
  power of two of the largest dimension (at least 256) and doubles while the packer
  needs more than \<open>maxBins\<close> bins; past \<open>maxSize\<close> the function throws. The size is a
  double, so the doubling does not wrap.
\<close>

partial_function (option) packLoop ::
  "packer \<Rightarrow> packItem list \<Rightarrow> int \<Rightarrow> int \<Rightarrow> int \<Rightarrow> int \<Rightarrow> (error + int \<times> bin list) option" where
  "packLoop pk rects maxSize padding maxBins sz =
     (if sz \<le> maxSize then
        (if int (length (pk sz padding rects)) \<le> maxBins
         then Some (Inr (sz, pk sz padding rects))
         else packLoop pk rects maxSize padding maxBins (sz * 2))
      else Some (Inl CouldNotPack))"

definition maxDimOf :: "packItem list \<Rightarrow> int" where
  "maxDimOf rects = foldl (\<lambda>m r. max (max m (itemWidth r)) (itemHeight r)) 1 rects"

definition packIntoAtlas ::
  "packer \<Rightarrow> packItem list \<Rightarrow> int \<Rightarrow> int \<Rightarrow> int \<Rightarrow> (error + int \<times> bin list) option" where
  "packIntoAtlas pk rects maxSize padding maxBins =
     (case nextPow2 (max (maxDimOf rects) 256) of
        None \<Rightarrow> None
      | Some sz \<Rightarrow> packLoop pk rects maxSize padding maxBins sz)"

text \<open>
  \<^verbatim>\<open>canPack(rects, maxSize, padding, maxBins, scale)\<close>: every item scaled with a floor
  of 1 pixel; a throw of \<^verbatim>\<open>packIntoAtlas\<close> is caught and is the answer false.
\<close>

definition scaleItem :: "real \<Rightarrow> packItem \<Rightarrow> packItem" where
  "scaleItem s r = r\<lparr>itemWidth := max 1 \<lfloor>real_of_int (itemWidth r) * s\<rfloor>,
                     itemHeight := max 1 \<lfloor>real_of_int (itemHeight r) * s\<rfloor>\<rparr>"

definition canPack :: "packer \<Rightarrow> packItem list \<Rightarrow> int \<Rightarrow> int \<Rightarrow> int \<Rightarrow> real \<Rightarrow> bool option" where
  "canPack pk rects maxSize padding maxBins s =
     (case packIntoAtlas pk (map (scaleItem s) rects) maxSize padding maxBins of
        None \<Rightarrow> None
      | Some (Inl e) \<Rightarrow> Some False
      | Some (Inr (sz, bins)) \<Rightarrow> Some (int (length bins) \<le> maxBins))"

text \<open>
  \<^verbatim>\<open>findBestScaleForSingleBin(rects, maxSize, padding)\<close>, over the answers \<open>cp\<close> of
  \<^verbatim>\<open>canPack(rects, maxSize, padding, 1, .)\<close>. The seeding loop
  \<^verbatim>\<open>while (high > 0.01 && !canPack(..., high)) high *= 0.5\<close>; the test after it; the
  loop of 10 refinements (\<open>bisectLoop\<close> counts the turns that remain).
\<close>

partial_function (option) seedLoop :: "(real \<Rightarrow> bool option) \<Rightarrow> real \<Rightarrow> real option" where
  "seedLoop cp high =
     (if high > 0.01 then
        (case cp high of
           None \<Rightarrow> None
         | Some ok \<Rightarrow> if \<not> ok then seedLoop cp (high * 0.5) else Some high)
      else Some high)"

fun bisectLoop :: "(real \<Rightarrow> bool option) \<Rightarrow> nat \<Rightarrow> real \<Rightarrow> real \<Rightarrow> real \<Rightarrow> real option" where
  "bisectLoop cp 0 low high best = Some best"
| "bisectLoop cp (Suc n) low high best =
     (case cp ((low + high) / 2) of
        None \<Rightarrow> None
      | Some ok \<Rightarrow>
          if ok then bisectLoop cp n ((low + high) / 2) high ((low + high) / 2)
          else bisectLoop cp n low ((low + high) / 2) best)"

definition findBestScaleWith :: "(real \<Rightarrow> bool option) \<Rightarrow> (error + real) option" where
  "findBestScaleWith cp =
     (case cp 1 of
        None \<Rightarrow> None
      | Some ok1 \<Rightarrow>
          if ok1 then Some (Inr 1)
          else (case seedLoop cp 1 of
                  None \<Rightarrow> None
                | Some high \<Rightarrow>
                    (if high \<le> 0.01 then
                       (case cp high of
                          None \<Rightarrow> None
                        | Some ok \<Rightarrow>
                            if \<not> ok then Some (Inl CouldNotFitSingleAtlas)
                            else map_option Inr (bisectLoop cp 10 0 high high))
                     else map_option Inr (bisectLoop cp 10 0 high high))))"

definition findBestScaleForSingleBin ::
  "packer \<Rightarrow> packItem list \<Rightarrow> int \<Rightarrow> int \<Rightarrow> (error + real) option" where
  "findBestScaleForSingleBin pk rects maxSize padding =
     findBestScaleWith (canPack pk rects maxSize padding 1)"

text \<open>
  \<^verbatim>\<open>resizePackInputToScale(packInput, scale)\<close>: the dimensions of every item and of its
  entry are scaled with a floor of 1 pixel (the image is resized by the codec).
\<close>

definition resizePackInputToScale :: "packItem list \<Rightarrow> real \<Rightarrow> packItem list" where
  "resizePackInputToScale packInput s =
     map (\<lambda>item.
            (let newW = max 1 \<lfloor>real_of_int (itemWidth item) * s\<rfloor>;
                 newH = max 1 \<lfloor>real_of_int (itemHeight item) * s\<rfloor>
             in item\<lparr>itemWidth := newW, itemHeight := newH,
                      itemData := (itemData item)\<lparr>entryWidth := newW, entryHeight := newH\<rparr>\<rparr>))
         packInput"

text \<open>
  One refinement of the scale search, on the triple (low, high, best), for a total
  answer \<open>P\<close> of \<^verbatim>\<open>canPack\<close>; and the scales the seeding tries: 1, 1/2, ..., 1/128.
\<close>

definition bisectStep :: "(real \<Rightarrow> bool) \<Rightarrow> real \<times> real \<times> real \<Rightarrow> real \<times> real \<times> real" where
  "bisectStep P = (\<lambda>(low, high, best).
     if P ((low + high) / 2) then ((low + high) / 2, high, (low + high) / 2)
     else (low, (low + high) / 2, best))"

definition halvedScale :: "nat \<Rightarrow> real" where
  "halvedScale k = 1 / 2 ^ k"

text \<open>
  The index of the scale at which the seeding stops, counted from \<open>halvedScale k\<close> with
  \<open>n\<close> halvings left; and the values the 32-bit loop variable of \<^verbatim>\<open>nextPow2\<close> can
  take.
\<close>

fun seedFrom :: "(real \<Rightarrow> bool) \<Rightarrow> nat \<Rightarrow> nat \<Rightarrow> nat" where
  "seedFrom P k 0 = k"
| "seedFrom P k (Suc n) = (if P (halvedScale k) then k else seedFrom P (Suc k) n)"

definition wrapStates :: "int set" where
  "wrapStates = {p. (\<exists>k \<le> 30. p = 2 ^ k) \<or> p = - 2147483648 \<or> p = 0}"

text \<open>
  A packer to run the engine on: it lays the items out in one row, left to right with
  the padding between them, when the row fits the bin, and gives every item a bin of its
  own otherwise. On equal squares two of which fill the bin's width it needs as many bins
  as any packer does.
\<close>

fun placeRow :: "int \<Rightarrow> int \<Rightarrow> packItem list \<Rightarrow> rect list" where
  "placeRow pad x0 [] = []"
| "placeRow pad x0 (i # rest) =
     \<lparr>rectX = x0, rectY = 0, rectWidth = itemWidth i, rectHeight = itemHeight i,
      rectTexture = None, rectMaterials = None, rectData = Some (itemData i)\<rparr>
     # placeRow pad (x0 + itemWidth i + pad) rest"

definition rowWidth :: "int \<Rightarrow> packItem list \<Rightarrow> int" where
  "rowWidth pad items = sum_list (map itemWidth items) + pad * (int (length items) - 1)"

definition rowPacker :: packer where
  "rowPacker sz pad items =
     (if rowWidth pad items \<le> sz \<and> list_all (\<lambda>i. itemHeight i \<le> sz) items
      then [\<lparr>binWidth = sz, binHeight = sz, binRects = placeRow pad 0 items\<rparr>]
      else map (\<lambda>i. \<lparr>binWidth = sz, binHeight = sz, binRects = placeRow pad 0 [i]\<rparr>) items)"

text \<open>Pack items for running the packer: \<open>n\<close> textures of 256x256 pixels.\<close>

definition squares :: "nat \<Rightarrow> packItem list" where
  "squares n = map (\<lambda>i. \<lparr>itemId = i, itemWidth = 256, itemHeight = 256,
                           itemData = \<lparr>entryTexture = None, entryWidth = 256, entryHeight = 256,
                                       entryMaterials = []\<rparr>\<rparr>) [0 ..< n]"

subsection \<open>A channel pass: texture entries, bins, layout\<close>

text \<open>
  The options of \<^verbatim>\<open>processAtlas\<close> that the engine reads; \<open>optDownscale\<close> is
  \<^verbatim>\<open>resizeMode === 'downscale'\<close>. The areas are the result of
  \<^verbatim>\<open>computeMaterialAreas(doc)\<close>, a map from material names to areas, given as the list
  of its entries: the sums of triangle areas over float positions are not modelled.
\<close>

record atlasOpts =
  optMaxSize :: int
  optPadding :: int
  optMaxBins :: int
  optDownscale :: bool
  optResizeCeil :: int
  optSizeMode :: sizeMode

text \<open>\<^verbatim>\<open>m.getName() || '(unnamed)'\<close>.\<close>

definition displayName :: "material \<Rightarrow> string" where
  "displayName m = (if matName m = [] then ''(unnamed)'' else matName m)"

text \<open>
  The sizing of a new entry in the loop over the materials of \<^verbatim>\<open>atlasMap\<close>: the resize
  ceiling, then the target sizing; the entry is square. Under the ceiling the code
  computes \<^verbatim>\<open>Math.floor(width * Math.min(resizeCeil / width, resizeCeil / height))\<close> in
  doubles, and the rounding of the quotient and of the product decides the floor: for the
  width 322 and the ceiling 256 the product is a double just below 256 and the floor is
  255. The rounding is the parameter \<open>fl\<close> of the model: \<open>fl x\<close> is the double nearest to
  the real \<open>x\<close>.
\<close>

definition ceilDims :: "(real \<Rightarrow> real) \<Rightarrow> atlasOpts \<Rightarrow> int \<Rightarrow> int \<Rightarrow> int \<times> int" where
  "ceilDims fl opts w h =
     (if optDownscale opts \<and> 0 < optResizeCeil opts \<and> (optResizeCeil opts < w \<or> optResizeCeil opts < h)
      then (let sc = min (fl (real_of_int (optResizeCeil opts) / real_of_int w))
                         (fl (real_of_int (optResizeCeil opts) / real_of_int h))
            in (max 1 \<lfloor>fl (real_of_int w * sc)\<rfloor>, max 1 \<lfloor>fl (real_of_int h * sc)\<rfloor>))
      else (w, h))"

definition sizeEntry ::
  "(real \<Rightarrow> real) \<Rightarrow> atlasOpts \<Rightarrow> (string \<times> real) list \<Rightarrow> material \<Rightarrow> texture \<Rightarrow> int \<Rightarrow> int
     \<Rightarrow> entry" where
  "sizeEntry fl opts areas mat tex w h =
     (let (width, height) = ceilDims fl opts w h;
          matArea = (case map_of areas (matName mat) of None \<Rightarrow> 0 | Some a \<Rightarrow> a);
          maxMatArea = foldl max (1 / 1000000) (map snd areas);
          targetSize = targetSizing (areas \<noteq> []) (optSizeMode opts) matArea maxMatArea
                         (optMaxSize opts) width height
      in \<lparr>entryTexture = Some tex, entryWidth = targetSize, entryHeight = targetSize,
          entryMaterials = [mat]\<rparr>)"

definition hasEntry :: "nat \<Rightarrow> entry list \<Rightarrow> bool" where
  "hasEntry tid entries = (\<exists>e \<in> set entries. map_option texId (entryTexture e) = Some tid)"

definition addMaterial :: "nat \<Rightarrow> material \<Rightarrow> entry list \<Rightarrow> entry list" where
  "addMaterial tid mat entries =
     map (\<lambda>e. if map_option texId (entryTexture e) = Some tid
              then e\<lparr>entryMaterials := entryMaterials e @ [mat]\<rparr> else e) entries"

text \<open>
  The loop over the materials. A material without a texture for the channel, or whose
  texture has no image, is passed over; a texture seen before gets the material added to
  its entry; a new texture is measured, and \<^verbatim>\<open>throw new Error(`Cannot read dimensions
  ...`)\<close> leaves the loop and the pass when a dimension is missing.
\<close>

fun collectEntries ::
  "(real \<Rightarrow> real) \<Rightarrow> atlasOpts \<Rightarrow> (string \<times> real) list \<Rightarrow> channel \<Rightarrow> entry list \<Rightarrow> material list
     \<Rightarrow> error + entry list" where
  "collectEntries fl opts areas ch entries [] = Inr entries"
| "collectEntries fl opts areas ch entries (mat # rest) =
     (case matTextures mat ch of
        None \<Rightarrow> collectEntries fl opts areas ch entries rest
      | Some tex \<Rightarrow>
          (case texImage tex of
             None \<Rightarrow> collectEntries fl opts areas ch entries rest
           | Some img \<Rightarrow>
               if hasEntry (texId tex) entries
               then collectEntries fl opts areas ch (addMaterial (texId tex) mat entries) rest
               else (case img of
                       Undetectable \<Rightarrow> Inl (UnsupportedImage (texId tex))
                     | Dimensions w h \<Rightarrow>
                         if w = 0 \<or> h = 0 then Inl (CannotReadDimensions (texId tex))
                         else collectEntries fl opts areas ch
                                (entries @ [sizeEntry fl opts areas mat tex w h]) rest)))"

definition packInputOf :: "entry list \<Rightarrow> packItem list" where
  "packInputOf entries =
     map (\<lambda>(idx, e). \<lparr>itemId = idx, itemWidth = entryWidth e, itemHeight = entryHeight e,
                       itemData = e\<rparr>) (enumerate 0 entries)"

text \<open>
  The reuse branch of \<^verbatim>\<open>atlasMap\<close>: \<^verbatim>\<open>findMaterialByName\<close>,
  \<^verbatim>\<open>findEntryForMaterial\<close>, and the rect pushed for a canonical rect \<open>r\<close>:
  \<^verbatim>\<open>{ ...r, data: entry }\<close>.
\<close>

definition findMaterialByName :: "string \<Rightarrow> material list \<Rightarrow> material option" where
  "findMaterialByName name materials =
     (if name = [] then None else find (\<lambda>m. displayName m = name) materials)"

definition findEntryForMaterial :: "string option \<Rightarrow> entry list \<Rightarrow> entry option" where
  "findEntryForMaterial materialName entries =
     (case materialName of
        None \<Rightarrow> None
      | Some n \<Rightarrow> if n = [] then None
                  else find (\<lambda>e. \<exists>m \<in> set (entryMaterials e). displayName m = n) entries)"

definition namesOf :: "rect \<Rightarrow> string list" where
  "namesOf r = (case rectMaterials r of None \<Rightarrow> [] | Some ns \<Rightarrow> ns)"

definition reuseRect :: "material list \<Rightarrow> entry list \<Rightarrow> rect \<Rightarrow> rect" where
  "reuseRect allMats entries r =
     (let resolvedMats = List.map_filter (\<lambda>n. findMaterialByName n allMats) (namesOf r);
          first = (case namesOf r of [] \<Rightarrow> None | n # _ \<Rightarrow> Some n)
      in r\<lparr>rectData := Some
            (case findEntryForMaterial first entries of
               None \<Rightarrow> \<lparr>entryTexture = None, entryWidth = rectWidth r, entryHeight = rectHeight r,
                         entryMaterials = resolvedMats\<rparr>
             | Some e \<Rightarrow> e\<lparr>entryMaterials :=
                              (if resolvedMats \<noteq> [] then resolvedMats else entryMaterials e)\<rparr>)\<rparr>)"

text \<open>
  The first lines of the loop over the bins: every bin is forced to the square size
  \<^verbatim>\<open>nextPow2Ceil(Math.max(bin.width || atlasSize, bin.height || atlasSize, atlasSize))\<close>,
  which becomes the \<^verbatim>\<open>atlasSize\<close> of the next turn.
\<close>

definition orElse :: "int \<Rightarrow> int \<Rightarrow> int" where
  "orElse v d = (if v = 0 then d else v)"

fun squareBins :: "int \<Rightarrow> bin list \<Rightarrow> bin list option" where
  "squareBins atlasSize [] = Some []"
| "squareBins atlasSize (b # bs) =
     (case nextPow2Ceil (max (max (orElse (binWidth b) atlasSize) (orElse (binHeight b) atlasSize))
                             atlasSize) of
        None \<Rightarrow> None
      | Some squareSize \<Rightarrow>
          map_option (\<lambda>rest. b\<lparr>binWidth := squareSize, binHeight := squareSize\<rparr> # rest)
            (squareBins squareSize bs))"

text \<open>
  The materials of a rect for \<^verbatim>\<open>materialMap\<close>, the map itself (a later
  \<^verbatim>\<open>materialMap.set\<close> for the same material replaces the earlier one), and the rects and
  atlases of the layout record.
\<close>

definition rectMats :: "material list \<Rightarrow> rect \<Rightarrow> material list" where
  "rectMats allMats r =
     (case rectData r of
        Some e \<Rightarrow> if entryMaterials e \<noteq> [] then entryMaterials e
                  else List.map_filter (\<lambda>n. findMaterialByName n allMats) (namesOf r)
      | None \<Rightarrow> List.map_filter (\<lambda>n. findMaterialByName n allMats) (namesOf r))"

definition setMappings ::
  "bool \<Rightarrow> channel \<Rightarrow> material list \<Rightarrow> bin \<Rightarrow> (nat \<Rightarrow> mapping option) \<Rightarrow> rect \<Rightarrow> (nat \<Rightarrow> mapping option)" where
  "setMappings ext ch allMats b mm r =
     foldl (\<lambda>mm' mat. mm'(matId mat \<mapsto> mappingFor ext r (binWidth b) (binHeight b) (matInfos mat ch)))
           mm (rectMats allMats r)"

definition materialMapOf ::
  "bool \<Rightarrow> channel \<Rightarrow> material list \<Rightarrow> bin list \<Rightarrow> (nat \<Rightarrow> mapping option)" where
  "materialMapOf ext ch allMats bins =
     foldl (\<lambda>mm b. foldl (setMappings ext ch allMats b) mm (binRects b)) (\<lambda>_. None) bins"

definition textureLabel :: "entry \<Rightarrow> string" where
  "textureLabel e =
     (case entryTexture e of
        None \<Rightarrow> ''(unnamed)''
      | Some t \<Rightarrow> if texName t = [] then ''(unnamed)'' else texName t)"

definition layoutRect :: "rect \<Rightarrow> entry \<Rightarrow> rect" where
  "layoutRect r e =
     \<lparr>rectX = rectX r, rectY = rectY r, rectWidth = rectWidth r, rectHeight = rectHeight r,
      rectTexture = Some (textureLabel e),
      rectMaterials = Some (filter (\<lambda>n. n \<noteq> []) (map matName (entryMaterials e))),
      rectData = None\<rparr>"

record atlas =
  atlasIndex :: nat
  atlasWidth :: int
  atlasHeight :: int
  atlasRects :: "rect list"

definition layoutAtlas :: "nat \<times> bin \<Rightarrow> atlas" where
  "layoutAtlas = (\<lambda>(binIndex, b).
     \<lparr>atlasIndex = binIndex, atlasWidth = binWidth b, atlasHeight = binHeight b,
      atlasRects = map (\<lambda>r. layoutRect r (the (rectData r))) (binRects b)\<rparr>)"

text \<open>
  What a channel pass leaves: the atlases of its layout record, its
  \<^verbatim>\<open>materialMap\<close> and its bins, all three read off the squared bins.
\<close>

record passResult =
  passAtlases :: "atlas list"
  passMaterialMap :: "nat \<Rightarrow> mapping option"
  passBins :: "bin list"

text \<open>
  The bins of a pass: from the canonical rects when they and their size are given (the
  packer is not run), and otherwise from the packer, after the single-bin scale search
  when one bin is demanded and downscaling permitted. \<^verbatim>\<open>binRects = bins[0].rects\<close> is a
  TypeError when the packer returns no bin.
\<close>

definition passBinsOf ::
  "packer \<Rightarrow> atlasOpts \<Rightarrow> material list \<Rightarrow> entry list \<Rightarrow> (rect list \<times> (int \<times> int) option) option
     \<Rightarrow> (error + int \<times> bin list) option" where
  "passBinsOf pk opts allMats entries reuseRects =
     (let packInput = packInputOf entries;
          targetBins = (if optMaxBins opts < 1 then 1 else optMaxBins opts)
      in case reuseRects of
           Some (rects, Some (w, h)) \<Rightarrow>
             (case nextPow2Ceil (max (max (orElse w 0) (orElse h 0)) 256) of
                None \<Rightarrow> None
              | Some atlasSize \<Rightarrow>
                  Some (Inr (atlasSize,
                    [\<lparr>binWidth = atlasSize, binHeight = atlasSize,
                      binRects = map (reuseRect allMats entries) rects\<rparr>])))
         | _ \<Rightarrow>
             (case (if targetBins = 1 \<and> optDownscale opts
                    then findBestScaleForSingleBin pk packInput (optMaxSize opts) (optPadding opts)
                    else Some (Inr 1)) of
                None \<Rightarrow> None
              | Some (Inl e) \<Rightarrow> Some (Inl e)
              | Some (Inr sc) \<Rightarrow>
                  (case packIntoAtlas pk
                          (if sc = 1 then packInput else resizePackInputToScale packInput sc)
                          (optMaxSize opts) (optPadding opts) targetBins of
                     None \<Rightarrow> None
                   | Some (Inl e) \<Rightarrow> Some (Inl e)
                   | Some (Inr (sz, bins)) \<Rightarrow>
                       if bins = [] then Some (Inl NullDereference) else Some (Inr (sz, bins)))))"

text \<open>
  The layout atlases, the \<^verbatim>\<open>materialMap\<close> and the bins of a pass whose squared bins
  are \<open>sq\<close>.
\<close>

definition passOf :: "bool \<Rightarrow> channel \<Rightarrow> material list \<Rightarrow> bin list \<Rightarrow> passResult" where
  "passOf ext ch allMats sq =
     \<lparr>passAtlases = map layoutAtlas (enumerate 0 sq),
      passMaterialMap = materialMapOf ext ch allMats sq,
      passBins = sq\<rparr>"

text \<open>
  \<^verbatim>\<open>atlasMap(doc, opts)\<close> for the channel \<open>ch\<close>, as far as the layout goes: the images,
  the atlas textures and the UV arithmetic of the remap loop are left out. The document
  is the list \<open>allMats\<close> of its materials and the list \<open>prims\<close> of the primitives of its
  meshes. The result \<open>None\<close> is a pass that does not return, \<open>Some (Inl e)\<close> a throw,
  \<open>Some (Inr None)\<close> the \<^verbatim>\<open>return;\<close> of a channel without textures. A rect without
  \<^verbatim>\<open>data\<close> is a TypeError in the compositing loop. With \<^verbatim>\<open>remapUVs\<close> false the last
  loop calls \<^verbatim>\<open>setter(prim.getMaterial(), ...)\<close> for every primitive, a TypeError for a
  primitive without material; with \<^verbatim>\<open>remapUVs\<close> true a primitive without material or
  without mapping is passed over.
\<close>

definition atlasMap ::
  "(real \<Rightarrow> real) \<Rightarrow> packer \<Rightarrow> atlasOpts \<Rightarrow> (string \<times> real) list \<Rightarrow> bool \<Rightarrow> material list
     \<Rightarrow> primitive list \<Rightarrow> channel \<Rightarrow> bool \<Rightarrow> (rect list \<times> (int \<times> int) option) option
     \<Rightarrow> (error + passResult option) option" where
  "atlasMap fl pk opts areas ext allMats prims ch remapUVs reuseRects =
     (case collectEntries fl opts areas ch [] allMats of
        Inl e \<Rightarrow> Some (Inl e)
      | Inr entries \<Rightarrow>
          if entries = [] then Some (Inr None)
          else (case passBinsOf pk opts allMats entries reuseRects of
                  None \<Rightarrow> None
                | Some (Inl e) \<Rightarrow> Some (Inl e)
                | Some (Inr (atlasSize, bins)) \<Rightarrow>
                    (case squareBins atlasSize bins of
                       None \<Rightarrow> None
                     | Some sq \<Rightarrow>
                         if \<exists>b \<in> set sq. \<exists>r \<in> set (binRects b). rectData r = None
                         then Some (Inl NullDereference)
                         else if \<not> remapUVs \<and> (\<exists>p \<in> set prims. material p = None)
                         then Some (Inl NullDereference)
                         else Some (Inr (Some (passOf ext ch allMats sq))))))"

text \<open>
  \<^verbatim>\<open>processAtlas(doc, opts)\<close> for the valid channels \<open>maps\<close>, as far as the layout goes:
  the canonical pass with \<^verbatim>\<open>remapUVs: true\<close>, then a reuse pass with
  \<^verbatim>\<open>remapUVs: false\<close> for every other channel, with the rects and the size of the first
  atlas of the canonical layout. A pass that returns nothing is a TypeError at the read
  of its \<^verbatim>\<open>layoutInfo\<close>.
\<close>

fun reusePasses ::
  "(real \<Rightarrow> real) \<Rightarrow> packer \<Rightarrow> atlasOpts \<Rightarrow> (string \<times> real) list \<Rightarrow> bool \<Rightarrow> material list
     \<Rightarrow> primitive list \<Rightarrow> channel \<Rightarrow> (rect list \<times> (int \<times> int) option) \<Rightarrow> channel list
     \<Rightarrow> (error + (channel \<times> passResult) list) option" where
  "reusePasses fl pk opts areas ext allMats prims canonicalMap reuse [] = Some (Inr [])"
| "reusePasses fl pk opts areas ext allMats prims canonicalMap reuse (ch # rest) =
     (if ch = canonicalMap then reusePasses fl pk opts areas ext allMats prims canonicalMap reuse rest
      else (case atlasMap fl pk opts areas ext allMats prims ch False (Some reuse) of
              None \<Rightarrow> None
            | Some (Inl e) \<Rightarrow> Some (Inl e)
            | Some (Inr None) \<Rightarrow> Some (Inl NullDereference)
            | Some (Inr (Some res)) \<Rightarrow>
                (case reusePasses fl pk opts areas ext allMats prims canonicalMap reuse rest of
                   None \<Rightarrow> None
                 | Some (Inl e) \<Rightarrow> Some (Inl e)
                 | Some (Inr others) \<Rightarrow> Some (Inr ((ch, res) # others)))))"

definition processAtlas ::
  "(real \<Rightarrow> real) \<Rightarrow> packer \<Rightarrow> atlasOpts \<Rightarrow> (string \<times> real) list \<Rightarrow> bool \<Rightarrow> material list
     \<Rightarrow> primitive list \<Rightarrow> channel list \<Rightarrow> (error + (channel \<times> passResult) list) option" where
  "processAtlas fl pk opts areas ext allMats prims maps =
     (if maps = [] then Some (Inr [])
      else (let canonicalMap = (if Basecolor \<in> set maps then Basecolor else hd maps)
            in case atlasMap fl pk opts areas ext allMats prims canonicalMap True None of
                 None \<Rightarrow> None
               | Some (Inl e) \<Rightarrow> Some (Inl e)
               | Some (Inr None) \<Rightarrow> Some (Inl NullDereference)
               | Some (Inr (Some canonical)) \<Rightarrow>
                   (let reuse = (case passAtlases canonical of
                                   [] \<Rightarrow> ([], None)
                                 | a # _ \<Rightarrow> (atlasRects a, Some (atlasWidth a, atlasHeight a)))
                    in case reusePasses fl pk opts areas ext allMats prims canonicalMap reuse maps of
                         None \<Rightarrow> None
                       | Some (Inl e) \<Rightarrow> Some (Inl e)
                       | Some (Inr others) \<Rightarrow> Some (Inr ((canonicalMap, canonical) # others)))))"





text \<open>
  A document for running the passes: the materials \<open>A\<close> and \<open>B\<close>, each with a base
  colour and a normal texture of 256x256 pixels of its own; no areas, no downscaling, no
  padding. \<open>sampleEntry\<close> is the entry the loop over the materials builds for a material
  and \<open>packedRect\<close> the rect \<open>rowPacker\<close> places for it at \<open>x\<close>.
\<close>

definition sampleTexture :: "nat \<Rightarrow> string \<Rightarrow> int \<Rightarrow> int \<Rightarrow> texture" where
  "sampleTexture i n w h = \<lparr>texId = i, texName = n, texImage = Some (Dimensions w h)\<rparr>"

definition sampleMaterial :: "nat \<Rightarrow> string \<Rightarrow> material" where
  "sampleMaterial i n =
     \<lparr>matId = i, matName = n,
      matTextures = (\<lambda>ch. case ch of
                       Basecolor \<Rightarrow> Some (sampleTexture (2 * i) (n @ ''_color'') 256 256)
                     | Normal \<Rightarrow> Some (sampleTexture (2 * i + 1) (n @ ''_normal'') 256 256)
                     | _ \<Rightarrow> None),
      matInfos = (\<lambda>_. None)\<rparr>"

definition sampleMaterials :: "material list" where
  "sampleMaterials = [sampleMaterial 0 ''A'', sampleMaterial 1 ''B'']"

definition sampleOpts :: "int \<Rightarrow> int \<Rightarrow> atlasOpts" where
  "sampleOpts maxSize maxBins =
     \<lparr>optMaxSize = maxSize, optPadding = 0, optMaxBins = maxBins, optDownscale = False,
      optResizeCeil = 0, optSizeMode = BestFill\<rparr>"

definition sampleEntry :: "channel \<Rightarrow> nat \<Rightarrow> string \<Rightarrow> entry" where
  "sampleEntry ch i n =
     \<lparr>entryTexture = matTextures (sampleMaterial i n) ch, entryWidth = 256, entryHeight = 256,
      entryMaterials = [sampleMaterial i n]\<rparr>"

definition packedRect :: "channel \<Rightarrow> nat \<Rightarrow> string \<Rightarrow> int \<Rightarrow> rect" where
  "packedRect ch i n x =
     \<lparr>rectX = x, rectY = 0, rectWidth = 256, rectHeight = 256, rectTexture = None,
      rectMaterials = None, rectData = Some (sampleEntry ch i n)\<rparr>"

text \<open>
  A packer that reports the extent it has used, as maxrects-packer does in smart mode:
  there the free area is the size plus the padding and a rect takes its size plus the
  padding, so that a row of items fits when it ends at most at \<open>size + padding\<close>, and
  the bin is as wide as the row. The options of the run: one bin, a maximum size of 512
  and the padding 2.
\<close>

definition paddedRowPacker :: packer where
  "paddedRowPacker sz pad items =
     (if rowWidth pad items \<le> sz + pad \<and> list_all (\<lambda>i. itemHeight i \<le> sz + pad) items
      then [\<lparr>binWidth = rowWidth pad items, binHeight = foldl max 0 (map itemHeight items),
             binRects = placeRow pad 0 items\<rparr>]
      else map (\<lambda>i. \<lparr>binWidth = itemWidth i, binHeight = itemHeight i,
                      binRects = placeRow pad 0 [i]\<rparr>) items)"

definition paddedOpts :: atlasOpts where
  "paddedOpts = (sampleOpts 512 1)\<lparr>optPadding := 2\<rparr>"

text \<open>
  A material whose base colour image has no readable dimensions, and a mesh whose second
  primitive has no \<^verbatim>\<open>POSITION\<close> attribute.
\<close>

definition brokenMaterial :: material where
  "brokenMaterial =
     \<lparr>matId = 2, matName = ''C'',
      matTextures = (\<lambda>ch. case ch of Basecolor \<Rightarrow> Some (sampleTexture 7 ''C_color'' 0 0) | _ \<Rightarrow> None),
      matInfos = (\<lambda>_. None)\<rparr>"

definition trianglePrim :: primitive where
  "trianglePrim = \<lparr>attributes = [(POSITION, oneTriangle)], indices = Some (Uint16Array [0, 1, 2]),
                    material = Some 0\<rparr>"

definition barePrim :: primitive where
  "barePrim = \<lparr>attributes = [(NORMAL, oneTriangle)], indices = Some (Uint16Array [0, 1, 2]),
                material = Some 0\<rparr>"

text \<open>
  The textures on which the loop over the materials throws: \<^verbatim>\<open>sizeOf\<close> recognises no
  format, or \<^verbatim>\<open>!width || !height\<close>.
\<close>

definition unreadable :: "texture \<Rightarrow> bool" where
  "unreadable t = (texImage t = Some Undetectable
                   \<or> (\<exists>w h. texImage t = Some (Dimensions w h) \<and> (w = 0 \<or> h = 0)))"

subsection \<open>Facts about the powers of two\<close>

lemma nearestPow2_loop_pos:
  "0 < p \<Longrightarrow> nearestPow2_loop p n = (if p * 2 \<le> n then nearestPow2_loop (p * 2) n else p)"
  by (subst nearestPow2_loop.simps) simp

lemma nearestPow2_loop_spec:
  "0 < p \<Longrightarrow> (\<exists>j::nat. nearestPow2_loop p n = p * 2 ^ j) \<and> n < 2 * nearestPow2_loop p n
     \<and> (p \<le> n \<longrightarrow> nearestPow2_loop p n \<le> n)"
proof (induction p n rule: nearestPow2_loop.induct)
  case (1 p n)
  show ?case
  proof (cases "p * 2 \<le> n")
    case True
    with 1 have ih: "(\<exists>j::nat. nearestPow2_loop (p * 2) n = p * 2 * 2 ^ j)
        \<and> n < 2 * nearestPow2_loop (p * 2) n \<and> nearestPow2_loop (p * 2) n \<le> n"
      by simp
    then obtain j :: nat where j: "nearestPow2_loop (p * 2) n = p * 2 * 2 ^ j" by blast
    have eq: "nearestPow2_loop p n = nearestPow2_loop (p * 2) n"
      using True 1(2) by (subst nearestPow2_loop.simps) simp
    have "nearestPow2_loop p n = p * 2 ^ (Suc j)" using eq j by simp
    then show ?thesis using ih eq by metis
  next
    case False
    then have eq: "nearestPow2_loop p n = p"
      by (subst nearestPow2_loop.simps) simp
    have "p = p * 2 ^ (0::nat)" by simp
    then show ?thesis using eq False by (metis mult.commute not_le)
  qed
qed

lemma nearestPow2_is_pow2: "is_pow2 (nearestPow2 n)"
  using nearestPow2_loop_spec [of 1 n] by (auto simp: nearestPow2_def is_pow2_def)

lemma nearestPow2_pos: "1 \<le> nearestPow2 n"
  using nearestPow2_is_pow2 [of n] by (auto simp: is_pow2_def)

lemma nearestPow2_le: "1 \<le> n \<Longrightarrow> nearestPow2 n \<le> n"
  using nearestPow2_loop_spec [of 1 n] by (simp add: nearestPow2_def)

lemma nearestPow2_gt: "n < 2 * nearestPow2 n"
  using nearestPow2_loop_spec [of 1 n] by (simp add: nearestPow2_def)

lemma pow2_between_unique:
  fixes a b :: nat
  assumes "(2::int) ^ a \<le> n" "n < 2 * 2 ^ b"  "(2::int) ^ b \<le> n" "n < 2 * 2 ^ a"
  shows "a = b"
proof -
  have "(2::int) ^ a < 2 ^ (Suc b)" using assms by simp
  then have 1: "a < Suc b" by (simp only: power_strict_increasing_iff) 
  have "(2::int) ^ b < 2 ^ (Suc a)" using assms by simp
  then have 2: "b < Suc a" by (simp only: power_strict_increasing_iff)
  from 1 2 show ?thesis by simp
qed

lemma nearestPow2_unique:
  assumes "is_pow2 r" "r \<le> n" "n < 2 * r"
  shows "nearestPow2 n = r"
proof -
  obtain a :: nat where a: "r = 2 ^ a" using assms(1) by (auto simp: is_pow2_def)
  obtain b :: nat where b: "nearestPow2 n = 2 ^ b" using nearestPow2_is_pow2 [of n] by (auto simp: is_pow2_def)
  have "1 \<le> n" using assms a by (smt (verit) one_le_power)
  then have "nearestPow2 n \<le> n" by (rule nearestPow2_le)
  moreover have "n < 2 * nearestPow2 n" by (rule nearestPow2_gt)
  ultimately have "a = b" using assms a b pow2_between_unique [of a n b] by simp
  then show ?thesis using a b by simp
qed

lemma nearestPow2_pow2: "nearestPow2 (2 ^ k) = 2 ^ k"
  by (rule nearestPow2_unique) (auto simp: is_pow2_def)

lemma nearestPow2_small: "n < 2 \<Longrightarrow> nearestPow2 n = 1"
  unfolding nearestPow2_def by (subst nearestPow2_loop.simps) simp

lemma nearestPow2_mono: "m \<le> n \<Longrightarrow> nearestPow2 m \<le> nearestPow2 n"
proof (cases "1 \<le> m")
  case False
  then show ?thesis using nearestPow2_small [of m] nearestPow2_pos [of n] by simp
next
  case True
  assume mn: "m \<le> n"
  obtain a :: nat where a: "nearestPow2 m = 2 ^ a" using nearestPow2_is_pow2 [of m] by (auto simp: is_pow2_def)
  obtain b :: nat where b: "nearestPow2 n = 2 ^ b" using nearestPow2_is_pow2 [of n] by (auto simp: is_pow2_def)
  have "(2::int) ^ a \<le> m" using nearestPow2_le [OF True] a by simp
  also have "m \<le> n" by (rule mn)
  also have "n < 2 * 2 ^ b" using nearestPow2_gt [of n] b by simp
  finally have "(2::int) ^ a < 2 ^ Suc b" by simp
  then have "a < Suc b" by (simp only: power_strict_increasing_iff)
  then have "(2::int) ^ a \<le> 2 ^ b" by (simp add: power_increasing)
  then show ?thesis using a b by simp
qed

lemma pow2_256: "is_pow2 256" unfolding is_pow2_def by (rule exI [of _ 8]) simp
lemma pow2_512: "is_pow2 512" unfolding is_pow2_def by (rule exI [of _ 9]) simp
lemma pow2_1024: "is_pow2 1024" unfolding is_pow2_def by (rule exI [of _ 10]) simp
lemma pow2_2048: "is_pow2 2048" unfolding is_pow2_def by (rule exI [of _ 11]) simp
lemma pow2_4096: "is_pow2 4096" unfolding is_pow2_def by (rule exI [of _ 12]) simp

lemma snap_closed:
  assumes "256 \<le> M" "256 \<le> target"
  shows "foldl (\<lambda>acc v. if v \<le> target then v else acc) 256 (allowedSizes M)
           = min (nearestPow2 (min M target)) 4096"
proof -
  define x where "x = min M target"
  consider "x < 512" | "512 \<le> x" "x < 1024" | "1024 \<le> x" "x < 2048"
    | "2048 \<le> x" "x < 4096" | "4096 \<le> x" by linarith
  then show ?thesis
  proof cases
    case 1
    have "nearestPow2 x = 256" using 1 assms by (intro nearestPow2_unique pow2_256) (auto simp: x_def)
    then show ?thesis using 1 assms unfolding x_def [symmetric] 
      by (auto simp: allowedSizes_def x_def)
  next
    case 2
    have "nearestPow2 x = 512" using 2 assms by (intro nearestPow2_unique pow2_512) (auto simp: x_def)
    then show ?thesis using 2 assms unfolding x_def [symmetric] 
      by (auto simp: allowedSizes_def x_def)
  next
    case 3
    have "nearestPow2 x = 1024" using 3 assms by (intro nearestPow2_unique pow2_1024) (auto simp: x_def)
    then show ?thesis using 3 assms unfolding x_def [symmetric] 
      by (auto simp: allowedSizes_def x_def)
  next
    case 4
    have "nearestPow2 x = 2048" using 4 assms by (intro nearestPow2_unique pow2_2048) (auto simp: x_def)
    then show ?thesis using 4 assms unfolding x_def [symmetric] 
      by (auto simp: allowedSizes_def x_def)
  next
    case 5
    have "nearestPow2 4096 \<le> nearestPow2 x" using 5 by (rule nearestPow2_mono)
    moreover have "nearestPow2 4096 = 4096" by (intro nearestPow2_unique pow2_4096) auto
    ultimately have "4096 \<le> nearestPow2 x" by simp
    then show ?thesis using 5 assms unfolding x_def [symmetric] 
      by (auto simp: allowedSizes_def x_def)
  qed
qed

subsection \<open>The Texture Sizer's result\<close>

lemma bucketOf_range: "256 \<le> bucketOf rel"
  by (simp add: bucketOf_def)

lemma allowedSizes_hd: "256 \<le> M \<Longrightarrow> allowedSizes M = 256 # filter (\<lambda>n. n \<le> M) [512, 1024, 2048, 4096]"
  by (simp add: allowedSizes_def)

lemma snapped_bounds:
  assumes "256 \<le> M" "256 \<le> x"
  shows "is_pow2 (min (nearestPow2 (min M x)) 4096)"
    and "256 \<le> min (nearestPow2 (min M x)) 4096"
    and "min (nearestPow2 (min M x)) 4096 \<le> M"
proof -
  have "256 \<le> min M x" using assms by simp
  then have "nearestPow2 256 \<le> nearestPow2 (min M x)" by (rule nearestPow2_mono)
  moreover have "nearestPow2 256 = 256" by (intro nearestPow2_unique pow2_256) auto
  ultimately show "256 \<le> min (nearestPow2 (min M x)) 4096" by simp
  have "nearestPow2 (min M x) \<le> min M x" using assms by (intro nearestPow2_le) simp
  then show "min (nearestPow2 (min M x)) 4096 \<le> M" by linarith
  show "is_pow2 (min (nearestPow2 (min M x)) 4096)"
    using nearestPow2_is_pow2 [of "min M x"] pow2_4096 by (simp add: min_def)
qed

lemma nearestPow2_idem: "is_pow2 r \<Longrightarrow> nearestPow2 r = r"
  by (auto simp: is_pow2_def nearestPow2_pow2)

lemma suggestSizeBestFill_closed:
  assumes "256 \<le> maxSize"
  shows "suggestSizeBestFill matArea maxMatArea maxSize srcW srcH =
     Some (min (nearestPow2 (min maxSize
        (max (nearestPow2 (min (min srcW srcH) maxSize)) (bucketOf (relativeArea matArea maxMatArea))))) 4096)"
proof -
  define base where "base = nearestPow2 (min (min srcW srcH) maxSize)"
  define rel where "rel = relativeArea matArea maxMatArea"
  define target where "target = max base (bucketOf rel)"
  have t: "(if 0.6 \<le> rel then max base 2048 else if 0.35 \<le> rel then max base 1024
            else if 0.15 \<le> rel then max base 512 else max base 256) = target"
    by (simp add: target_def bucketOf_def)
  have tge: "256 \<le> target" using bucketOf_range [of rel] by (simp add: target_def)
  define s where "s = min (nearestPow2 (min maxSize target)) 4096"
  have snap: "foldl (\<lambda>acc v. if v \<le> target then v else acc) 256 (allowedSizes maxSize) = s"
    unfolding s_def using assms tge by (rule snap_closed)
  have sb: "is_pow2 s" "256 \<le> s" "s \<le> maxSize"
    unfolding s_def using snapped_bounds [OF assms tge] by simp_all
  have "clampPow2 s 256 maxSize = s"
    using sb by (simp add: clampPow2_def nearestPow2_idem)
  then have "suggestSizeBestFill matArea maxMatArea maxSize srcW srcH = Some s"
    unfolding suggestSizeBestFill_def Let_def base_def [symmetric] rel_def [symmetric] t
    using snap by (simp add: allowedSizes_hd [OF assms] del: foldl.simps)
  then show ?thesis by (simp add: s_def target_def base_def rel_def)
qed

lemma targetSizing_structure:
  assumes "256 \<le> maxSize"
  shows "targetSizing True BestFill matArea maxMatArea maxSize width height =
     min (min (nearestPow2 (min maxSize
            (max (nearestPow2 (min (min width height) maxSize)) (bucketOf (relativeArea matArea maxMatArea))))) 4096)
         (nearestPow2 (max 1 (min width height)))"
proof -
  define x where "x = max (nearestPow2 (min (min width height) maxSize)) (bucketOf (relativeArea matArea maxMatArea))"
  have xge: "256 \<le> x" using bucketOf_range [of "relativeArea matArea maxMatArea"] by (simp add: x_def)
  define s where "s = min (nearestPow2 (min maxSize x)) 4096"
  have sb: "is_pow2 s" "256 \<le> s" "s \<le> maxSize"
    unfolding s_def using snapped_bounds [OF assms xge] by simp_all
  have sg: "suggestSizeBestFill matArea maxMatArea maxSize width height = Some s"
    unfolding s_def x_def by (rule suggestSizeBestFill_closed [OF assms])
  have t1: "nearestPow2_js (Some s) = s"
    using sb(1) by (simp add: nearestPow2_js_def nearestPow2_idem)
  have t2: "max 256 (min maxSize s) = s" using sb(2,3) by linarith
  have "targetSizing True BestFill matArea maxMatArea maxSize width height =
          min s (nearestPow2 (max 1 (min width height)))"
    unfolding targetSizing_def Let_def by (simp only: sg t1 t2 if_True sizeMode.case)
  then show ?thesis by (simp only: s_def x_def)
qed

lemma targetSizing_closed:
  assumes "1 \<le> width" "1 \<le> height" "256 \<le> maxSize"
  shows "targetSizing True BestFill matArea maxMatArea maxSize width height =
     min (nearestPow2 (min width height)) (min (nearestPow2 maxSize) 4096)"
proof -
  define m where "m = min width height"
  define B where "B = bucketOf (relativeArea matArea maxMatArea)"
  define P where "P = nearestPow2 m"
  define Q where "Q = nearestPow2 maxSize"
  have m1: "1 \<le> m" using assms by (simp add: m_def)
  have Pm: "P \<le> m" unfolding P_def using m1 by (rule nearestPow2_le)
  have QM: "Q \<le> maxSize" unfolding Q_def using assms by (intro nearestPow2_le) simp
  have mx: "max 1 m = m" using m1 by simp
  have st: "targetSizing True BestFill matArea maxMatArea maxSize width height =
     min (min (nearestPow2 (min maxSize (max (nearestPow2 (min m maxSize)) B))) 4096) P"
    using targetSizing_structure [OF assms(3), of matArea maxMatArea width height]
    unfolding m_def [symmetric] B_def [symmetric] mx P_def [symmetric] .
  show ?thesis
  proof (cases "m \<le> maxSize")
    case True
    then have base: "nearestPow2 (min m maxSize) = P" by (simp add: P_def min_def)
    have "P \<le> min maxSize (max P B)" using Pm True by simp
    then have "nearestPow2 P \<le> nearestPow2 (min maxSize (max P B))" by (rule nearestPow2_mono)
    then have 1: "P \<le> nearestPow2 (min maxSize (max P B))"
      using nearestPow2_idem [OF nearestPow2_is_pow2 [of m]] by (simp add: P_def)
    have 2: "P \<le> Q" unfolding P_def Q_def using True by (rule nearestPow2_mono)
    define X where "X = nearestPow2 (min maxSize (max P B))"
    have "targetSizing True BestFill matArea maxMatArea maxSize width height = min (min X 4096) P"
      by (simp only: st base X_def)
    also have "\<dots> = min P (min Q 4096)" using 1 2 unfolding X_def [symmetric] by (auto simp: min_def)
    finally show ?thesis by (simp only: P_def Q_def m_def)
  next
    case False
    then have base: "nearestPow2 (min m maxSize) = Q" by (simp add: Q_def min_def)
    have QP: "Q \<le> P" unfolding P_def Q_def using False by (intro nearestPow2_mono) simp
    have "Q \<le> min maxSize (max Q B)" using QM by simp
    then have "nearestPow2 Q \<le> nearestPow2 (min maxSize (max Q B))" by (rule nearestPow2_mono)
    then have 1: "Q \<le> nearestPow2 (min maxSize (max Q B))"
      using nearestPow2_idem [OF nearestPow2_is_pow2 [of maxSize]] by (simp add: Q_def)
    have "nearestPow2 (min maxSize (max Q B)) \<le> nearestPow2 maxSize"
      by (intro nearestPow2_mono) simp
    then have 2: "nearestPow2 (min maxSize (max Q B)) = Q" using 1 by (simp add: Q_def)
    have "targetSizing True BestFill matArea maxMatArea maxSize width height = min (min Q 4096) P"
      by (simp only: st base 2)
    also have "\<dots> = min P (min Q 4096)" using QP by (auto simp: min_def)
    finally show ?thesis by (simp only: P_def Q_def m_def)
  qed
qed

lemma nearestPow2_loop_step: "0 < p \<Longrightarrow> p * 2 \<le> n \<Longrightarrow> nearestPow2_loop p n = nearestPow2_loop (p * 2) n"
  by (subst nearestPow2_loop.simps) simp

lemma nearestPow2_loop_stop: "\<not> (0 < p \<and> p * 2 \<le> n) \<Longrightarrow> nearestPow2_loop p n = p"
  by (subst nearestPow2_loop.simps) auto


text \<open>
  Claim C3, as amended. With area metadata and the default \<^verbatim>\<open>best-fill\<close> mode, for
  a source of at least 1x1 pixels and \<open>maxSize\<close> of at least 256: the target is the larger
  of the relativeArea bucket and the source's nearest lower power of two (capped by
  \<open>maxSize\<close>), snapped down to the allowed sizes, and then capped by the source's own
  nearest lower power of two. The bucket is a floor, not a cap: the result is the source's
  nearest lower power of two capped by the largest allowed size, whatever the bucket. The
  target is a power of two, never exceeds \<open>maxSize\<close> and never upscales the source.
\<close>

theorem targetSizing_bestFill_amended:
  assumes "1 \<le> width" "1 \<le> height" "256 \<le> maxSize"
  shows "targetSizing True BestFill matArea maxMatArea maxSize width height =
           min (min (nearestPow2 (min maxSize
                  (max (nearestPow2 (min (min width height) maxSize))
                       (bucketOf (relativeArea matArea maxMatArea))))) 4096)
               (nearestPow2 (min width height))
       \<and> targetSizing True BestFill matArea maxMatArea maxSize width height =
           min (nearestPow2 (min width height)) (min (nearestPow2 maxSize) 4096)
       \<and> is_pow2 (targetSizing True BestFill matArea maxMatArea maxSize width height)
       \<and> targetSizing True BestFill matArea maxMatArea maxSize width height \<le> maxSize
       \<and> targetSizing True BestFill matArea maxMatArea maxSize width height \<le> width
       \<and> targetSizing True BestFill matArea maxMatArea maxSize width height \<le> height"
proof -
  define t where "t = targetSizing True BestFill matArea maxMatArea maxSize width height"
  have m1: "1 \<le> min width height" using assms by simp
  then have mx: "max 1 (min width height) = min width height" by simp
  have a: "t = min (min (nearestPow2 (min maxSize
                  (max (nearestPow2 (min (min width height) maxSize))
                       (bucketOf (relativeArea matArea maxMatArea))))) 4096)
               (nearestPow2 (min width height))"
    unfolding t_def using targetSizing_structure [OF assms(3), of matArea maxMatArea width height]
    by (simp only: mx)
  have b: "t = min (nearestPow2 (min width height)) (min (nearestPow2 maxSize) 4096)"
    unfolding t_def by (rule targetSizing_closed [OF assms])
  have P: "nearestPow2 (min width height) \<le> min width height"
    using m1 by (rule nearestPow2_le)
  have Q: "nearestPow2 maxSize \<le> maxSize" using assms(3) by (intro nearestPow2_le) simp
  have c: "is_pow2 t"
    unfolding b using nearestPow2_is_pow2 [of "min width height"] nearestPow2_is_pow2 [of maxSize]
      pow2_4096 by (simp add: min_def)
  have d: "t \<le> maxSize" unfolding b using Q by linarith
  have e: "t \<le> width" "t \<le> height" unfolding b using P by linarith+
  show ?thesis using a b c d e unfolding t_def by blast
qed

theorem targetSizing_bestFill_amended_witness:
  "(1::int) \<le> 300 \<and> (1::int) \<le> 700 \<and> (256::int) \<le> 4096
     \<and> targetSizing True BestFill 1 1 4096 300 700 = 256"
proof -
  have "nearestPow2 (min 300 700) = 256"
    by (intro nearestPow2_unique pow2_256) simp_all
  moreover have "nearestPow2 4096 = 4096" by (rule nearestPow2_idem [OF pow2_4096])
  ultimately show ?thesis
    using targetSizing_bestFill_amended [of 300 700 4096 1 1] by simp
qed

text \<open>
  The claim as stated fails: a 2048x2048 source on a material of relative area 0 (bucket
  256) with \<open>maxSize = 4096\<close> keeps 2048, above its bucket.
\<close>

theorem targetSizing_exceeds_bucket:
  "bucketOf (relativeArea 0 1) = 256 \<and> targetSizing True BestFill 0 1 4096 2048 2048 = 2048
     \<and> \<not> targetSizing True BestFill 0 1 4096 2048 2048 \<le> bucketOf (relativeArea 0 1)"
  using targetSizing_closed [of 2048 2048 4096 0 1] nearestPow2_idem [OF pow2_2048]
    nearestPow2_idem [OF pow2_4096]
  by (simp add: bucketOf_def relativeArea_def)

subsection \<open>The normal matrix on a degenerate transform\<close>

lemma computeNormalMatrix_det:
  "(let a00 = m ! 0; a01 = m ! 4; a02 = m ! 8;
          a10 = m ! 1; a11 = m ! 5; a12 = m ! 9;
          a20 = m ! 2; a21 = m ! 6; a22 = m ! 10;
          b01 = a22 * a11 - a12 * a21;
          b11 = - a22 * a10 + a12 * a20;
          b21 = a21 * a10 - a11 * a20
    in a00 * b01 + a01 * b11 + a02 * b21) = det3x3 m"
  by (simp add: det3x3_def Let_def algebra_simps)

lemma worker_det:
  "m ! 0 * (m ! 10 * m ! 5 - m ! 6 * m ! 9) + m ! 1 * (- m ! 10 * m ! 4 + m ! 6 * m ! 8)
     + m ! 2 * (m ! 9 * m ! 4 - m ! 5 * m ! 8) = det3x3 m"
  by (simp add: det3x3_def algebra_simps)

lemma computeNormalMatrix_worker_degenerate:
  assumes "det3x3 m = 0"
  shows "computeNormalMatrix_worker m = identityMat4"
  using assms worker_det [of m] by (simp add: computeNormalMatrix_worker_def Let_def)

lemma computeNormalMatrix_cli_degenerate_general:
  assumes "det3x3 m = 0"
  shows "computeNormalMatrix m =
     [m ! 10 * m ! 5 - m ! 9 * m ! 6, - m ! 10 * m ! 1 + m ! 9 * m ! 2, m ! 6 * m ! 1 - m ! 5 * m ! 2,
      - m ! 10 * m ! 4 + m ! 8 * m ! 6, m ! 10 * m ! 0 - m ! 8 * m ! 2, - m ! 6 * m ! 0 + m ! 4 * m ! 2,
      m ! 9 * m ! 4 - m ! 8 * m ! 5, - m ! 9 * m ! 0 + m ! 8 * m ! 1, m ! 5 * m ! 0 - m ! 4 * m ! 1]"
proof -
  have "m ! 0 * (m ! 10 * m ! 5 - m ! 9 * m ! 6) + m ! 4 * (- m ! 10 * m ! 1 + m ! 9 * m ! 2)
     + m ! 8 * (m ! 6 * m ! 1 - m ! 5 * m ! 2) = 0"
    using assms by (simp add: det3x3_def algebra_simps)
  then show ?thesis by (simp add: computeNormalMatrix_def Let_def)
qed

text \<open>
  Claim C4 on the code. For the transform \<open>diag(1, 1, 0, 1)\<close>, whose upper-left block has
  determinant 0, \<^verbatim>\<open>computeNormalMatrix\<close> of \<^verbatim>\<open>atlas-cli.mjs\<close> returns the cofactor
  matrix \<open>diag(0, 0, 1)\<close> and not the identity, while the worker's
  \<^verbatim>\<open>computeNormalMatrix\<close> returns the identity on the same input.
\<close>

theorem computeNormalMatrix_cli_not_identity:
  "det3x3 [1, 0, 0, 0, 0, 1, 0, 0, 0, 0, 0, 0, 0, 0, 0, 1] = 0
   \<and> computeNormalMatrix [1, 0, 0, 0, 0, 1, 0, 0, 0, 0, 0, 0, 0, 0, 0, 1] = [0, 0, 0, 0, 0, 0, 0, 0, 1]
   \<and> computeNormalMatrix [1, 0, 0, 0, 0, 1, 0, 0, 0, 0, 0, 0, 0, 0, 0, 1] \<noteq> identityMat3
   \<and> computeNormalMatrix_worker [1, 0, 0, 0, 0, 1, 0, 0, 0, 0, 0, 0, 0, 0, 0, 1] = identityMat4"
  by (simp add: det3x3_def computeNormalMatrix_def computeNormalMatrix_worker_def identityMat3_def
      identityMat4_def Let_def)

subsection \<open>The Primitive Merger\<close>

lemma mergePrimitivesIntoOne_noop:
  "length prims \<le> 1 \<Longrightarrow> mergePrimitivesIntoOne prims = prims"
  by (simp add: mergePrimitivesIntoOne_def)

lemma collectPrim_no_position:
  "getAttribute p POSITION = None \<Longrightarrow> collectPrim acc p = acc"
  by (simp add: collectPrim_def)

lemma foldl_collectPrim_skip:
  "getAttribute p POSITION = None \<Longrightarrow>
     foldl collectPrim acc (ps @ p # qs) = foldl collectPrim acc (ps @ qs)"
  by (simp add: collectPrim_no_position)

lemma addVec3_nonempty: "xs \<noteq> [] \<or> arr \<noteq> [] \<Longrightarrow> addVec3 xs arr \<noteq> []"
  by (induction xs arr rule: addVec3.induct) auto

lemma indicesAcc_foldl_length:
  "length (indicesAcc (foldl collectPrim acc prims)) = length (indicesAcc acc) +
     sum_list (map (\<lambda>p. case getAttribute p POSITION of None \<Rightarrow> 0
                 | Some pos \<Rightarrow> (case indices p of Some idx \<Rightarrow> length (elems idx) | None \<Rightarrow> count pos)) prims)"
  by (induction prims arbitrary: acc) (auto simp: collectPrim_def split: option.splits)

lemma positions_foldl_nonempty:
  "positions acc \<noteq> [] \<Longrightarrow> positions (foldl collectPrim acc prims) \<noteq> []"
  by (induction prims arbitrary: acc)
     (auto simp: collectPrim_def addAttr_def addVec3_nonempty split: option.splits)

lemma merged_indices:
  assumes "1 < length prims" "positions (collectPrims prims) \<noteq> []"
    "indicesAcc (collectPrims prims) \<noteq> []"
  shows "map indices (mergePrimitivesIntoOne prims)
           = [Some (mergedIndexArray (indicesAcc (collectPrims prims)))]"
  using assms by (simp add: mergePrimitivesIntoOne_def Let_def)

text \<open>
  Claim C2 on the code. The two primitives of \<open>wideMesh\<close> have 65539 vertices in total,
  more than 65535, but only 6 indices: the merged index accessor is a 16-bit array, and
  the indices 65536, 65537 and 65538 of the second triangle wrap to 0, 1 and 2.
\<close>

theorem merge_index_width_follows_index_count:
  "totalVertexCount wideMesh = 65539
   \<and> map indices (mergePrimitivesIntoOne wideMesh) = [Some (Uint16Array [0, 1, 2, 0, 1, 2])]"
proof -
  have idx: "indicesAcc (collectPrims wideMesh) = [0, 1, 2, 65536, 65537, 65538]"
    by (simp add: collectPrims_def wideMesh_def collectPrim_def getAttribute_def emptyAcc_def
        bigVertexBuffer_def oneTriangle_def)
  have "positions (collectPrim emptyAcc (hd wideMesh)) \<noteq> []"
    by (simp add: wideMesh_def collectPrim_def getAttribute_def addAttr_def emptyAcc_def
        bigVertexBuffer_def addVec3_nonempty)
  then have pos: "positions (collectPrims wideMesh) \<noteq> []"
    using positions_foldl_nonempty [of "collectPrim emptyAcc (hd wideMesh)" "tl wideMesh"]
    by (simp add: collectPrims_def wideMesh_def)
  have len: "1 < length wideMesh" by (simp add: wideMesh_def)
  have "map indices (mergePrimitivesIntoOne wideMesh) = [Some (mergedIndexArray [0, 1, 2, 65536, 65537, 65538])]"
    using merged_indices [OF len pos] idx by simp
  moreover have "mergedIndexArray [0, 1, 2, 65536, 65537, 65538] = Uint16Array [0, 1, 2, 0, 1, 2]"
    by (simp add: mergedIndexArray_def newUint16Array_def)
  moreover have "totalVertexCount wideMesh = 65539"
    by (simp add: totalVertexCount_def wideMesh_def getAttribute_def bigVertexBuffer_def oneTriangle_def)
  ultimately show ?thesis by simp
qed

text \<open>
  Claim C10. \<^verbatim>\<open>mergePrimitivesIntoOne\<close> on a mesh of at most one primitive returns at
  the first line: the list of primitives, and with it every attribute, index array and
  material, is what it was. The guard is the same text in the offline engine and in the
  worker.
\<close>

theorem mergePrimitivesIntoOne_single_noop:
  assumes "length prims \<le> 1"
  shows "mergePrimitivesIntoOne prims = prims"
  using assms by (simp add: mergePrimitivesIntoOne_def)

theorem mergePrimitivesIntoOne_single_noop_witness:
  "length [\<lparr>attributes = [(POSITION, oneTriangle)], indices = None, material = Some 0\<rparr>] \<le> 1
   \<and> mergePrimitivesIntoOne [\<lparr>attributes = [(POSITION, oneTriangle)], indices = None, material = Some 0\<rparr>]
       = [\<lparr>attributes = [(POSITION, oneTriangle)], indices = None, material = Some 0\<rparr>]"
  using mergePrimitivesIntoOne_single_noop
    [of "[\<lparr>attributes = [(POSITION, oneTriangle)], indices = None, material = Some 0\<rparr>]"]
  by simp

subsection \<open>The UV Remapper\<close>

lemma length_remapLoop: "length (remapLoop su sv ou ov xs) = length xs"
  by (induction su sv ou ov xs rule: remapLoop.induct) auto









lemma map_of_updateAttr_same: "map_of (updateAttr k v xs) k = Some v"
  by (induction k v xs rule: updateAttr.induct) auto

lemma map_of_updateAttr_other: "k' \<noteq> k \<Longrightarrow> map_of (updateAttr k v xs) k' = map_of xs k'"
  by (induction k v xs rule: updateAttr.induct) auto

lemma keys_updateAttr_present:
  "map_of xs k \<noteq> None \<Longrightarrow> map fst (updateAttr k v xs) = map fst xs"
  by (induction k v xs rule: updateAttr.induct) auto

lemma getAttribute_setAttribute_same: "getAttribute (setAttribute p k v) k = Some v"
  by (simp add: getAttribute_def setAttribute_def map_of_updateAttr_same)

lemma getAttribute_setAttribute_other:
  "k' \<noteq> k \<Longrightarrow> getAttribute (setAttribute p k v) k' = getAttribute p k'"
  by (simp add: getAttribute_def setAttribute_def map_of_updateAttr_other)

lemma keys_setAttribute_present:
  "getAttribute p k \<noteq> None \<Longrightarrow> map fst (attributes (setAttribute p k v)) = map fst (attributes p)"
  by (simp add: getAttribute_def setAttribute_def keys_updateAttr_present)

lemma array_createAccessor: "array (createAccessor arr ty) = arr"
  by (simp add: createAccessor_def)

text \<open>What a turn of the remap loop leaves behind, when the primitive has the UV set.\<close>

lemma remapPrimitive_result:
  assumes "remapPrimitive m info prim = Inr (prim', info')"
    and "getAttribute prim (TEXCOORD (texCoordIndex m)) = Some uvAcc"
  shows "attributeArray prim' (TEXCOORD 0)
           = Some (remapArray (mapRect m) (mapWidth m) (mapHeight m)
               (if hasTransform m then bakeTextureTransformInPlace (array uvAcc) (transform (the info))
                else array uvAcc))"
    and "\<exists>i. info' = Some i \<and> texCoord i = 0
           \<and> transform i = (if hasTransform m then None else (case info of None \<Rightarrow> None | Some j \<Rightarrow> transform j))"
  using assms
  by (auto simp: remapPrimitive_def Let_def attributeArray_def getAttribute_setAttribute_same
        array_createAccessor split: option.splits if_splits)

lemma mappingFor_after_run:
  assumes "remapPrimitive (mappingFor ext r aw ah info) info prim = Inr (prim', info')"
    and "getAttribute prim (TEXCOORD (texCoordIndex (mappingFor ext r aw ah info))) \<noteq> None"
  shows "hasTransform (mappingFor ext r aw ah info') = False"
    and "texCoordIndex (mappingFor ext r aw ah info') = 0"
proof -
  obtain uvAcc where u: "getAttribute prim (TEXCOORD (texCoordIndex (mappingFor ext r aw ah info))) = Some uvAcc"
    using assms(2) by blast
  from remapPrimitive_result(2) [OF assms(1) u]
  obtain i where i: "info' = Some i" "texCoord i = 0"
     "transform i = (if hasTransform (mappingFor ext r aw ah info) then None
                     else (case info of None \<Rightarrow> None | Some j \<Rightarrow> transform j))"
    by blast
  show "texCoordIndex (mappingFor ext r aw ah info') = 0" using i by (simp add: mappingFor_def)
  show "hasTransform (mappingFor ext r aw ah info') = False"
    using i by (auto simp: mappingFor_def split: option.splits if_splits)
qed

lemma remapPrimitive_plain:
  assumes "hasTransform m = False" "texCoordIndex m = 0"
    and "getAttribute prim (TEXCOORD 0) = Some uvAcc" "info = Some i" "texCoord i = 0"
  shows "\<exists>prim'. remapPrimitive m info prim = Inr (prim', info)
           \<and> attributeArray prim' (TEXCOORD 0)
               = Some (remapArray (mapRect m) (mapWidth m) (mapHeight m) (array uvAcc))
           \<and> map fst (attributes prim') = map fst (attributes prim)"
  using assms
  by (simp add: remapPrimitive_def Let_def attributeArray_def getAttribute_setAttribute_same
        array_createAccessor keys_setAttribute_present)

lemma remapLoop_identity: "remapLoop 1 1 0 0 xs = xs"
  by (induction "1::real" "1::real" "0::real" "0::real" xs rule: remapLoop.induct)
     (auto simp: fmul_def fadd_def option.map_ident split: option.splits)

lemma remapArray_full_atlas:
  assumes "rectX r = 0" "rectY r = 0" "rectWidth r = aw" "rectHeight r = ah" "aw \<noteq> 0" "ah \<noteq> 0"
  shows "remapArray r aw ah xs = xs"
  using assms by (simp add: remapArray_def remapLoop_identity)

text \<open>
  Claim C8, as amended. After a turn of the remap loop on a primitive that has the UV set
  of its material, a second turn (with the mapping rebuilt from the texture-info as the
  first turn left it) performs no transform bake: the stored flag is false, no attribute
  is added, the texture-info is unchanged, and \<^verbatim>\<open>TEXCOORD_0\<close> becomes the plain rect
  remap of what it was. The values of \<^verbatim>\<open>TEXCOORD_0\<close> are unchanged when the rect is the
  whole atlas.
\<close>

theorem remap_second_run_amended:
  assumes "remapPrimitive (mappingFor ext r aw ah info) info prim = Inr (prim1, info1)"
      and "getAttribute prim (TEXCOORD (texCoordIndex (mappingFor ext r aw ah info))) \<noteq> None"
  shows "hasTransform (mappingFor ext r aw ah info1) = False
     \<and> (\<exists>prim2 uv1. attributeArray prim1 (TEXCOORD 0) = Some uv1
          \<and> remapPrimitive (mappingFor ext r aw ah info1) info1 prim1 = Inr (prim2, info1)
          \<and> attributeArray prim2 (TEXCOORD 0) = Some (remapArray r aw ah uv1)
          \<and> map fst (attributes prim2) = map fst (attributes prim1)
          \<and> (rectX r = 0 \<and> rectY r = 0 \<and> rectWidth r = aw \<and> rectHeight r = ah \<and> aw \<noteq> 0 \<and> ah \<noteq> 0
               \<longrightarrow> attributeArray prim2 (TEXCOORD 0) = attributeArray prim1 (TEXCOORD 0)))"
proof -
  let ?m = "mappingFor ext r aw ah info"
  let ?m1 = "mappingFor ext r aw ah info1"
  obtain uvAcc where u: "getAttribute prim (TEXCOORD (texCoordIndex ?m)) = Some uvAcc"
    using assms(2) by blast
  have flags: "hasTransform ?m1 = False" "texCoordIndex ?m1 = 0"
    using mappingFor_after_run [OF assms] by simp_all
  from remapPrimitive_result(2) [OF assms(1) u]
  obtain i where i: "info1 = Some i" "texCoord i = 0" by blast
  from remapPrimitive_result(1) [OF assms(1) u]
  obtain uv1 where uv1: "attributeArray prim1 (TEXCOORD 0) = Some uv1" by blast
  then obtain acc1 where acc1: "getAttribute prim1 (TEXCOORD 0) = Some acc1" "array acc1 = uv1"
    by (auto simp: attributeArray_def)
  from remapPrimitive_plain [OF flags acc1(1) i]
  obtain prim2 where p2: "remapPrimitive ?m1 info1 prim1 = Inr (prim2, info1)"
      "attributeArray prim2 (TEXCOORD 0) = Some (remapArray (mapRect ?m1) (mapWidth ?m1) (mapHeight ?m1) (array acc1))"
      "map fst (attributes prim2) = map fst (attributes prim1)"
    by blast
  have geo: "mapRect ?m1 = r" "mapWidth ?m1 = aw" "mapHeight ?m1 = ah"
    by (simp_all add: mappingFor_def)
  have full: "rectX r = 0 \<and> rectY r = 0 \<and> rectWidth r = aw \<and> rectHeight r = ah \<and> aw \<noteq> 0 \<and> ah \<noteq> 0
               \<longrightarrow> attributeArray prim2 (TEXCOORD 0) = attributeArray prim1 (TEXCOORD 0)"
    using p2(2) uv1 acc1(2) geo by (auto simp: remapArray_full_atlas)
  show ?thesis
    using flags(1) uv1 p2 acc1(2) geo full by auto
qed

lemma first_run_shifted:
  "remapPrimitive (mappingFor True exampleRect 1024 1024 (Some shiftedInfo)) (Some shiftedInfo)
       (uvPrim [Some 1, Some 1])
     = Inr (uvPrim [Some (1 / 2), Some (1 / 4)], Some plainInfo)"
  by (simp add: remapPrimitive_def mappingFor_def shiftedInfo_def plainInfo_def uvPrim_def
      exampleRect_def getAttribute_def setAttribute_def createAccessor_def Let_def
      nextTexcoordIndex_def texcoordOfName_def bakeTextureTransformInPlace_def remapArray_def
      fmul_def fadd_def fsub_def)

lemma first_run_plain:
  "remapPrimitive (mappingFor True exampleRect 1024 1024 (Some plainInfo)) (Some plainInfo)
       (uvPrim [Some 1, Some 1])
     = Inr (uvPrim [Some (1 / 2), Some (1 / 4)], Some plainInfo)"
  by (simp add: remapPrimitive_def mappingFor_def plainInfo_def uvPrim_def
      exampleRect_def getAttribute_def setAttribute_def createAccessor_def Let_def
      remapArray_def fmul_def fadd_def)

lemma second_run_plain:
  "remapPrimitive (mappingFor True exampleRect 1024 1024 (Some plainInfo)) (Some plainInfo)
       (uvPrim [Some (1 / 2), Some (1 / 4)])
     = Inr (uvPrim [Some (3 / 8), Some (1 / 16)], Some plainInfo)"
  by (simp add: remapPrimitive_def mappingFor_def plainInfo_def uvPrim_def
      exampleRect_def getAttribute_def setAttribute_def createAccessor_def Let_def
      remapArray_def fmul_def fadd_def)

theorem remap_second_run_amended_witness:
  "remapPrimitive (mappingFor True exampleRect 1024 1024 (Some shiftedInfo)) (Some shiftedInfo)
       (uvPrim [Some 1, Some 1])
     = Inr (uvPrim [Some (1 / 2), Some (1 / 4)], Some plainInfo)
   \<and> getAttribute (uvPrim [Some 1, Some 1])
        (TEXCOORD (texCoordIndex (mappingFor True exampleRect 1024 1024 (Some shiftedInfo)))) \<noteq> None
   \<and> hasTransform (mappingFor True exampleRect 1024 1024 (Some plainInfo)) = False
   \<and> (\<exists>prim2. remapPrimitive (mappingFor True exampleRect 1024 1024 (Some plainInfo)) (Some plainInfo)
                  (uvPrim [Some (1 / 2), Some (1 / 4)]) = Inr (prim2, Some plainInfo)
         \<and> attributeArray prim2 (TEXCOORD 0)
              = Some (remapArray exampleRect 1024 1024 [Some (1 / 2), Some (1 / 4)]))"
proof -
  have h2: "getAttribute (uvPrim [Some 1, Some 1])
        (TEXCOORD (texCoordIndex (mappingFor True exampleRect 1024 1024 (Some shiftedInfo)))) \<noteq> None"
    by (simp add: getAttribute_def uvPrim_def mappingFor_def shiftedInfo_def)
  have a1: "attributeArray (uvPrim [Some (1 / 2), Some (1 / 4)]) (TEXCOORD 0)
               = Some [Some (1 / 2), Some (1 / 4)]"
    by (simp add: attributeArray_def getAttribute_def uvPrim_def createAccessor_def)
  show ?thesis
    using remap_second_run_amended [OF first_run_shifted h2] first_run_shifted h2 a1 by auto
qed

text \<open>
  The claim as stated fails: on a material without transform the second turn scales and
  offsets the remapped UVs again, (1/2, 1/4) becomes (3/8, 1/16).
\<close>

theorem remap_twice_changes_uvs:
  "remapPrimitive (mappingFor True exampleRect 1024 1024 (Some plainInfo)) (Some plainInfo)
       (uvPrim [Some 1, Some 1])
     = Inr (uvPrim [Some (1 / 2), Some (1 / 4)], Some plainInfo)
   \<and> remapPrimitive (mappingFor True exampleRect 1024 1024 (Some plainInfo)) (Some plainInfo)
       (uvPrim [Some (1 / 2), Some (1 / 4)])
     = Inr (uvPrim [Some (3 / 8), Some (1 / 16)], Some plainInfo)
   \<and> attributeArray (uvPrim [Some (1 / 2), Some (1 / 4)]) (TEXCOORD 0)
       \<noteq> attributeArray (uvPrim [Some (3 / 8), Some (1 / 16)]) (TEXCOORD 0)"
  using first_run_plain second_run_plain
  by (simp add: attributeArray_def getAttribute_def uvPrim_def createAccessor_def)

subsection \<open>The 32-bit loop of nextPow2\<close>

lemma shl32_small: "0 \<le> p \<Longrightarrow> p < 1073741824 \<Longrightarrow> shl32 p = 2 * p"
  by (simp add: shl32_def Let_def)

lemma shl32_top: "shl32 1073741824 = - 2147483648"
  by (simp add: shl32_def Let_def)

lemma shl32_min: "shl32 (- 2147483648) = 0"
  by (simp add: shl32_def Let_def)

lemma shl32_zero: "shl32 0 = 0"
  by (simp add: shl32_def Let_def)

lemma pow2_le_2_30: "k \<le> 30 \<Longrightarrow> (2::int) ^ k \<le> 1073741824"
proof -
  assume "k \<le> 30"
  then have "(2::int) ^ k \<le> 2 ^ 30" by (intro power_increasing) simp_all
  then show ?thesis by simp
qed

lemma pow2_lt_2_30: "k < 30 \<Longrightarrow> (2::int) ^ k < 1073741824"
proof -
  assume "k < 30"
  then have "(2::int) ^ k < 2 ^ 30" by (intro power_strict_increasing) simp_all
  then show ?thesis by simp
qed

text \<open>From a power of two at most \<open>2 ^ 30\<close>, with a bound of at most \<open>2 ^ 30\<close>, the loop
  returns the least power of two that is not below the bound.\<close>

lemma nextPow2_loop_returns:
  assumes "n \<le> 1073741824"
  shows "k \<le> 30 \<Longrightarrow> (k = 0 \<or> 2 ^ (k - 1) < n) \<Longrightarrow>
     \<exists>j. k \<le> j \<and> j \<le> 30 \<and> nextPow2_loop (2 ^ k) n = Some (2 ^ j) \<and> n \<le> 2 ^ j
          \<and> (j = 0 \<or> 2 ^ (j - 1) < n)"
proof (induction "30 - k" arbitrary: k)
  case 0
  then have k: "k = 30" by simp
  have "\<not> (2::int) ^ k < n" using assms k by simp
  then have "nextPow2_loop (2 ^ k) n = Some (2 ^ k)"
    by (subst nextPow2_loop.simps) simp
  then show ?case using 0 k assms by (intro exI [of _ k]) simp
next
  case (Suc d)
  then have k: "k < 30" by simp
  show ?case
  proof (cases "(2::int) ^ k < n")
    case False
    then have "nextPow2_loop (2 ^ k) n = Some (2 ^ k)"
      by (subst nextPow2_loop.simps) simp
    then show ?thesis using False Suc.prems by (intro exI [of _ k]) simp
  next
    case True
    have sh: "shl32 (2 ^ k) = 2 ^ Suc k"
      using shl32_small [of "2 ^ k"] pow2_lt_2_30 [OF k] by simp
    have step: "nextPow2_loop (2 ^ k) n = nextPow2_loop (2 ^ Suc k) n"
      using True sh by (subst nextPow2_loop.simps) simp
    have "d = 30 - Suc k" using Suc.hyps(2) by simp
    moreover have "Suc k \<le> 30" using k by simp
    moreover have "Suc k = 0 \<or> (2::int) ^ (Suc k - 1) < n" using True by simp
    ultimately obtain j where j: "Suc k \<le> j" "j \<le> 30" "nextPow2_loop (2 ^ Suc k) n = Some (2 ^ j)"
        "n \<le> 2 ^ j" "j = 0 \<or> 2 ^ (j - 1) < n"
      using Suc.hyps(1) [of "Suc k"] by blast
    show ?thesis using j step by (intro exI [of _ j]) simp
  qed
qed

lemma nextPow2_returns:
  assumes "n \<le> 1073741824"
  shows "\<exists>j \<le> 30. nextPow2 n = Some (2 ^ j) \<and> n \<le> 2 ^ j \<and> (j = 0 \<or> 2 ^ (j - 1) < n)"
  using nextPow2_loop_returns [OF assms, of 0] by (auto simp: nextPow2_def)

text \<open>Above \<open>2 ^ 30\<close> the loop never returns.\<close>

lemma shl32_wrapStates: "p \<in> wrapStates \<Longrightarrow> shl32 p \<in> wrapStates"
proof -
  assume "p \<in> wrapStates"
  then consider k where "k < 30" "p = 2 ^ k" | "p = 2 ^ 30" | "p = - 2147483648" | "p = 0"
    unfolding wrapStates_def by (auto simp: le_less)
  then show ?thesis
  proof cases
    case 1
    then have "shl32 p = 2 ^ Suc k" using shl32_small [of "2 ^ k"] pow2_lt_2_30 [of k] by simp
    moreover have "Suc k \<le> 30" using 1 by simp
    ultimately show ?thesis unfolding wrapStates_def by blast
  next
    case 2
    then show ?thesis using shl32_top by (simp add: wrapStates_def)
  next
    case 3
    then show ?thesis using shl32_min by (simp add: wrapStates_def)
  next
    case 4
    then show ?thesis using shl32_zero by (simp add: wrapStates_def)
  qed
qed

lemma wrapStates_le: "p \<in> wrapStates \<Longrightarrow> p \<le> 1073741824"
  using pow2_le_2_30 by (auto simp: wrapStates_def)

lemma nextPow2_loop_diverges_aux:
  assumes "nextPow2_loop p n = Some r"
  shows "1073741824 < n \<longrightarrow> p \<notin> wrapStates"
proof (rule nextPow2_loop.raw_induct
    [where P = "\<lambda>p n r. 1073741824 < n \<longrightarrow> p \<notin> wrapStates", OF _ assms])
  fix f :: "int \<Rightarrow> int \<Rightarrow> int option" and p n r :: int
  assume ih: "\<And>p n r. f p n = Some r \<Longrightarrow> 1073741824 < n \<longrightarrow> p \<notin> wrapStates"
    and body: "(if p < n then f (shl32 p) n else Some p) = Some r"
  show "1073741824 < n \<longrightarrow> p \<notin> wrapStates"
  proof
    assume big: "1073741824 < n"
    show "p \<notin> wrapStates"
    proof
      assume p: "p \<in> wrapStates"
      then have "p < n" using wrapStates_le [OF p] big by simp
      then have "f (shl32 p) n = Some r" using body by simp
      then have "shl32 p \<notin> wrapStates" using ih big by blast
      then show False using shl32_wrapStates [OF p] by simp
    qed
  qed
qed

lemma nextPow2_diverges: "1073741824 < n \<Longrightarrow> nextPow2 n = None"
proof -
  assume big: "1073741824 < n"
  have "(1::int) \<in> wrapStates" unfolding wrapStates_def by (auto intro: exI [of _ 0])
  then show ?thesis
    using nextPow2_loop_diverges_aux [of 1 n] big unfolding nextPow2_def
    by (cases "nextPow2_loop 1 n") auto
qed

lemma nextPow2_Some:
  assumes "nextPow2 n = Some r"
  shows "is_pow2 r" "n \<le> r" "r \<le> 1073741824" "1 \<le> r"
proof -
  have small: "n \<le> 1073741824" using assms nextPow2_diverges [of n] by (cases "n \<le> 1073741824") auto
  from nextPow2_returns [OF small] obtain j where j: "j \<le> 30" "nextPow2 n = Some (2 ^ j)" "n \<le> 2 ^ j"
    by blast
  then have r: "r = 2 ^ j" using assms by simp
  show "is_pow2 r" using r by (auto simp: is_pow2_def)
  show "n \<le> r" using r j by simp
  show "r \<le> 1073741824" using r pow2_le_2_30 [OF j(1)] by simp
  show "1 \<le> r" using r by simp
qed

lemma nextPow2_of_pow2:
  assumes "is_pow2 n" "n \<le> 1073741824"
  shows "nextPow2 n = Some n"
proof -
  obtain a :: nat where a: "n = 2 ^ a" using assms(1) by (auto simp: is_pow2_def)
  from nextPow2_returns [OF assms(2)] obtain j where j: "nextPow2 n = Some (2 ^ j)" "n \<le> 2 ^ j"
      "j = 0 \<or> 2 ^ (j - 1) < n" by blast
  have "a \<le> j" using j(2) a by (simp add: power_le_imp_le_exp)
  moreover have "j \<le> a"
  proof (cases "j = 0")
    case False
    then have "(2::int) ^ (j - 1) < 2 ^ a" using j(3) a by simp
    then have "j - 1 < a" by (simp only: power_strict_increasing_iff)
    then show ?thesis by simp
  qed simp
  ultimately show ?thesis using j(1) a by simp
qed

lemma nextPow2_between:
  assumes "is_pow2 r" "r \<le> 1073741824" "n \<le> r" "r < 2 * n"
  shows "nextPow2 n = Some r"
proof -
  obtain a :: nat where a: "r = 2 ^ a" using assms(1) by (auto simp: is_pow2_def)
  have small: "n \<le> 1073741824" using assms by simp
  from nextPow2_returns [OF small] obtain j where j: "nextPow2 n = Some (2 ^ j)" "n \<le> 2 ^ j"
      "j = 0 \<or> 2 ^ (j - 1) < n" by blast
  have "j \<le> a"
  proof (cases "j = 0")
    case False
    then have "(2::int) ^ (j - 1) < n" using j(3) by simp
    also have "n \<le> 2 ^ a" using a assms(3) by simp
    finally have "j - 1 < a" by (simp only: power_strict_increasing_iff)
    then show ?thesis by simp
  qed simp
  moreover have "a \<le> j"
  proof (cases "a = 0")
    case False
    then have "(2::int) ^ a = 2 * 2 ^ (a - 1)" by (cases a) simp_all
    then have "(2::int) ^ (a - 1) < n" using assms(4) a by simp
    also have "n \<le> 2 ^ j" by (rule j(2))
    finally have "a - 1 < j" by (simp only: power_strict_increasing_iff)
    then show ?thesis by simp
  qed simp
  ultimately show ?thesis using j(1) a by simp
qed

subsection \<open>The Atlas Packer: size search and single-bin scale search\<close>

lemma halvedScale_half: "halvedScale k / 2 = halvedScale (Suc k)"
  by (simp add: halvedScale_def)

lemma halvedScale_unit: "0 < halvedScale k" "halvedScale k \<le> 1"
  by (simp_all add: halvedScale_def)

lemma halvedScale_above_floor: "k \<le> 6 \<Longrightarrow> halvedScale k > 0.01"
proof -
  assume "k \<le> 6"
  then have "(2::real) ^ k \<le> 2 ^ 6" by (intro power_increasing) simp_all
  then have "(2::real) ^ k \<le> 64" by simp
  then have "1 / 64 \<le> 1 / (2::real) ^ k" by (intro divide_left_mono) simp_all
  then show ?thesis by (simp add: halvedScale_def)
qed

lemma halvedScale_7_below_floor: "halvedScale 7 \<le> 0.01"
  by (simp add: halvedScale_def)

lemma seedLoop_total:
  assumes cp: "\<And>s. 0 < s \<Longrightarrow> s \<le> 1 \<Longrightarrow> cp s = Some (P s)"
  shows "k + n = 7 \<Longrightarrow> seedLoop cp (halvedScale k) = Some (halvedScale (seedFrom P k n))"
proof (induction n arbitrary: k)
  case 0
  then have "k = 7" by simp
  then show ?case using halvedScale_7_below_floor by (subst seedLoop.simps) simp
next
  case (Suc n)
  then have k6: "k \<le> 6" by simp
  have ih: "seedLoop cp (halvedScale (Suc k)) = Some (halvedScale (seedFrom P (Suc k) n))"
    using Suc by simp
  have c: "cp (halvedScale k) = Some (P (halvedScale k))"
    using cp halvedScale_unit by simp
  show ?case
    using halvedScale_above_floor [OF k6] ih c
    by (subst seedLoop.simps) (simp add: halvedScale_half)
qed

lemma seedFrom_spec:
  "seedFrom P k n \<le> k + n \<and> k \<le> seedFrom P k n
   \<and> (\<forall>j. k \<le> j \<and> j < seedFrom P k n \<longrightarrow> \<not> P (halvedScale j))
   \<and> (seedFrom P k n < k + n \<longrightarrow> P (halvedScale (seedFrom P k n)))"
proof (induction n arbitrary: k)
  case 0
  then show ?case by auto
next
  case (Suc n)
  show ?case
  proof (cases "P (halvedScale k)")
    case True
    then show ?thesis by auto
  next
    case False
    have ih: "seedFrom P (Suc k) n \<le> Suc k + n \<and> Suc k \<le> seedFrom P (Suc k) n
       \<and> (\<forall>j. Suc k \<le> j \<and> j < seedFrom P (Suc k) n \<longrightarrow> \<not> P (halvedScale j))
       \<and> (seedFrom P (Suc k) n < Suc k + n \<longrightarrow> P (halvedScale (seedFrom P (Suc k) n)))"
      by (rule Suc.IH)
    have "\<forall>j. k \<le> j \<and> j < seedFrom P (Suc k) n \<longrightarrow> \<not> P (halvedScale j)"
    proof (intro allI impI)
      fix j assume j: "k \<le> j \<and> j < seedFrom P (Suc k) n"
      show "\<not> P (halvedScale j)"
      proof (cases "j = k")
        case True then show ?thesis using False by simp
      next
        case False
        then have "Suc k \<le> j" using j by simp
        then show ?thesis using ih j by blast
      qed
    qed
    then show ?thesis using False ih by simp
  qed
qed

lemma seedFrom_unique:
  assumes "k \<le> 7" "P (halvedScale k)" "\<forall>j<k. \<not> P (halvedScale j)"
  shows "seedFrom P 0 7 = k"
proof -
  let ?s = "seedFrom P 0 7"
  have sp: "?s \<le> 7" "\<forall>j. j < ?s \<longrightarrow> \<not> P (halvedScale j)" "?s < 7 \<longrightarrow> P (halvedScale ?s)"
    using seedFrom_spec [of P 0 7] by simp_all
  have "\<not> k < ?s" using sp(2) assms(2) by blast
  moreover have "\<not> ?s < k"
  proof
    assume "?s < k"
    then have "?s < 7" "\<not> P (halvedScale ?s)" using assms(1,3) by simp_all
    then show False using sp(3) by simp
  qed
  ultimately show ?thesis by simp
qed

lemma bisectLoop_total:
  assumes cp: "\<And>s. 0 < s \<Longrightarrow> s \<le> 1 \<Longrightarrow> cp s = Some (P s)"
  shows "0 \<le> low \<Longrightarrow> low < high \<Longrightarrow> high \<le> 1 \<Longrightarrow>
     bisectLoop cp n low high best = Some (snd (snd ((bisectStep P ^^ n) (low, high, best))))"
proof (induction n arbitrary: low high best)
  case 0
  then show ?case by simp
next
  case (Suc n)
  let ?mid = "(low + high) / 2"
  have m: "0 < ?mid" "?mid \<le> 1" "low < ?mid" "?mid < high" "0 \<le> ?mid" using Suc.prems by simp_all
  have c: "cp ?mid = Some (P ?mid)" using cp m by simp
  show ?case
  proof (cases "P ?mid")
    case True
    have "bisectLoop cp n ?mid high ?mid = Some (snd (snd ((bisectStep P ^^ n) (?mid, high, ?mid))))"
      using Suc.IH [of ?mid high ?mid] m Suc.prems by simp
    then show ?thesis using c True by (simp add: funpow_swap1 bisectStep_def)
  next
    case False
    have "bisectLoop cp n low ?mid best = Some (snd (snd ((bisectStep P ^^ n) (low, ?mid, best))))"
      using Suc.IH [of low ?mid best] m Suc.prems by simp
    then show ?thesis using c False by (simp add: funpow_swap1 bisectStep_def)
  qed
qed

lemma bisectStep_keeps_packing:
  "P (snd (snd t)) \<Longrightarrow> P (snd (snd ((bisectStep P ^^ n) t)))"
proof (induction n)
  case 0
  then show ?case by simp
next
  case (Suc n)
  then have "P (snd (snd ((bisectStep P ^^ n) t)))" by simp
  then show ?case
    by (cases "(bisectStep P ^^ n) t") (auto simp: bisectStep_def)
qed

lemma findBestScaleWith_total:
  assumes cp: "\<And>s. 0 < s \<Longrightarrow> s \<le> 1 \<Longrightarrow> cp s = Some (P s)"
    and "\<not> P 1"
  shows "findBestScaleWith cp =
     (if seedFrom P 0 7 = 7 \<and> \<not> P (halvedScale 7) then Some (Inl CouldNotFitSingleAtlas)
      else Some (Inr (snd (snd ((bisectStep P ^^ 10)
                    (0, halvedScale (seedFrom P 0 7), halvedScale (seedFrom P 0 7)))))))"
proof -
  let ?k = "seedFrom P 0 7"
  have c1: "cp 1 = Some (P 1)" using cp by simp
  have seed: "seedLoop cp 1 = Some (halvedScale ?k)"
    using seedLoop_total [of cp P 0 7] cp by (simp add: halvedScale_def)
  have sp: "?k \<le> 7" using seedFrom_spec [of P 0 7] by simp
  have ck: "cp (halvedScale ?k) = Some (P (halvedScale ?k))" using cp halvedScale_unit by simp
  have bs: "bisectLoop cp 10 0 (halvedScale ?k) (halvedScale ?k)
              = Some (snd (snd ((bisectStep P ^^ 10) (0, halvedScale ?k, halvedScale ?k))))"
    using bisectLoop_total [of cp P 0 "halvedScale ?k" 10 "halvedScale ?k"] cp halvedScale_unit
    by simp
  show ?thesis
  proof (cases "?k = 7")
    case True
    then show ?thesis
      using assms(2) c1 seed ck bs halvedScale_7_below_floor
      by (simp add: findBestScaleWith_def)
  next
    case False
    then have "?k \<le> 6" using sp by simp
    then have "halvedScale ?k > 0.01" by (rule halvedScale_above_floor)
    then show ?thesis
      using assms(2) c1 seed False bs
      by (simp add: findBestScaleWith_def)
  qed
qed

lemma packLoop_returns:
  "0 < sz \<Longrightarrow>
     \<exists>res. packLoop pk rects maxSize padding maxBins sz = Some res
       \<and> (case res of
            Inl e \<Rightarrow> e = CouldNotPack
          | Inr (s, bins) \<Rightarrow> (\<exists>j::nat. s = sz * 2 ^ j) \<and> s \<le> maxSize
               \<and> bins = pk s padding rects \<and> int (length bins) \<le> maxBins)"
proof (induction "nat (maxSize + 1 - sz)" arbitrary: sz rule: less_induct)
  case less
  show ?case
  proof (cases "sz \<le> maxSize")
    case False
    then have "packLoop pk rects maxSize padding maxBins sz = Some (Inl CouldNotPack)"
      by (subst packLoop.simps) simp
    then show ?thesis by simp
  next
    case True
    show ?thesis
    proof (cases "int (length (pk sz padding rects)) \<le> maxBins")
      case fits: True
      have "packLoop pk rects maxSize padding maxBins sz = Some (Inr (sz, pk sz padding rects))"
        using True fits by (subst packLoop.simps) simp
      moreover have "\<exists>j::nat. sz = sz * 2 ^ j" by (rule exI [of _ 0]) simp
      ultimately show ?thesis using True fits by simp
    next
      case False
      have step: "packLoop pk rects maxSize padding maxBins sz
                    = packLoop pk rects maxSize padding maxBins (sz * 2)"
        using True False by (subst packLoop.simps) simp
      have "nat (maxSize + 1 - sz * 2) < nat (maxSize + 1 - sz)" using less.prems True by simp
      moreover have "0 < sz * 2" using less.prems by simp
      ultimately obtain res where res: "packLoop pk rects maxSize padding maxBins (sz * 2) = Some res"
        "(case res of
            Inl e \<Rightarrow> e = CouldNotPack
          | Inr (s, bins) \<Rightarrow> (\<exists>j::nat. s = sz * 2 * 2 ^ j) \<and> s \<le> maxSize
               \<and> bins = pk s padding rects \<and> int (length bins) \<le> maxBins)"
        using less.hyps [of "sz * 2"] by blast
      show ?thesis
      proof (cases res)
        case (Inl e)
        then show ?thesis using res step by simp
      next
        case (Inr sb)
        obtain s bins where sb: "sb = (s, bins)" by (cases sb)
        have r2: "(\<exists>j::nat. s = sz * 2 * 2 ^ j) \<and> s \<le> maxSize
               \<and> bins = pk s padding rects \<and> int (length bins) \<le> maxBins"
          using res(2) unfolding Inr sb sum.case prod.case .
        then obtain j :: nat where j: "s = sz * 2 * 2 ^ j" by blast
        then have "s = sz * 2 ^ Suc j" by simp
        then have e: "\<exists>j::nat. s = sz * 2 ^ j" by blast
        have "packLoop pk rects maxSize padding maxBins sz = Some (Inr (s, bins))"
          using res(1) step Inr sb by simp
        then show ?thesis using e r2 by auto
      qed
    qed
  qed
qed

lemma maxDimOf_foldl_bound:
  "m \<le> B \<Longrightarrow> \<forall>r \<in> set rects. itemWidth r \<le> B \<and> itemHeight r \<le> B \<Longrightarrow>
     foldl (\<lambda>m r. max (max m (itemWidth r)) (itemHeight r)) m rects \<le> B"
  by (induction rects arbitrary: m) auto

lemma maxDimOf_bound:
  "1 \<le> B \<Longrightarrow> \<forall>r \<in> set rects. itemWidth r \<le> B \<and> itemHeight r \<le> B \<Longrightarrow> maxDimOf rects \<le> B"
  unfolding maxDimOf_def by (rule maxDimOf_foldl_bound)

lemma packIntoAtlas_returns:
  assumes "maxDimOf rects \<le> 1073741824"
  shows "\<exists>res. packIntoAtlas pk rects maxSize padding maxBins = Some res
       \<and> (case res of
            Inl e \<Rightarrow> e = CouldNotPack
          | Inr (s, bins) \<Rightarrow> is_pow2 s \<and> 256 \<le> s \<and> s \<le> maxSize
               \<and> bins = pk s padding rects \<and> int (length bins) \<le> maxBins)"
proof -
  have "max (maxDimOf rects) 256 \<le> 1073741824" using assms by simp
  from nextPow2_returns [OF this] obtain k where k: "nextPow2 (max (maxDimOf rects) 256) = Some (2 ^ k)"
      "max (maxDimOf rects) 256 \<le> 2 ^ k" by blast
  have pos: "(0::int) < 2 ^ k" by simp
  from packLoop_returns [OF pos, of pk rects maxSize padding maxBins]
  obtain res where res: "packLoop pk rects maxSize padding maxBins (2 ^ k) = Some res"
        "(case res of
            Inl e \<Rightarrow> e = CouldNotPack
          | Inr (s, bins) \<Rightarrow> (\<exists>j::nat. s = 2 ^ k * 2 ^ j) \<and> s \<le> maxSize
               \<and> bins = pk s padding rects \<and> int (length bins) \<le> maxBins)"
    by blast
  have p: "packIntoAtlas pk rects maxSize padding maxBins = Some res"
    using k(1) res(1) by (simp add: packIntoAtlas_def)
  show ?thesis
  proof (cases res)
    case (Inl e)
    then show ?thesis using p res(2) by simp
  next
    case (Inr sb)
    obtain s bins where sb: "sb = (s, bins)" by (cases sb)
    have r2: "(\<exists>j::nat. s = 2 ^ k * 2 ^ j) \<and> s \<le> maxSize
               \<and> bins = pk s padding rects \<and> int (length bins) \<le> maxBins"
      using res(2) unfolding Inr sb sum.case prod.case .
    then obtain j :: nat where j: "s = 2 ^ k * 2 ^ j" by blast
    then have s: "s = 2 ^ (k + j)" by (simp add: power_add)
    then have p2: "is_pow2 s" by (auto simp: is_pow2_def)
    have "(256::int) \<le> 2 ^ k" using k(2) by simp
    also have "(2::int) ^ k \<le> 2 ^ (k + j)" by (intro power_increasing) simp_all
    finally have ge: "256 \<le> s" using s by simp
    have "packIntoAtlas pk rects maxSize padding maxBins = Some (Inr (s, bins))"
      using p Inr sb by simp
    then show ?thesis using p2 ge r2 by auto
  qed
qed

lemma packIntoAtlas_None:
  "packIntoAtlas pk rects maxSize padding maxBins = None \<longleftrightarrow> 1073741824 < maxDimOf rects"
proof
  assume "packIntoAtlas pk rects maxSize padding maxBins = None"
  then show "1073741824 < maxDimOf rects"
    using packIntoAtlas_returns [of rects pk maxSize padding maxBins] by (cases "maxDimOf rects \<le> 1073741824") auto
next
  assume "1073741824 < maxDimOf rects"
  then have "nextPow2 (max (maxDimOf rects) 256) = None" by (intro nextPow2_diverges) simp
  then show "packIntoAtlas pk rects maxSize padding maxBins = None" by (simp add: packIntoAtlas_def)
qed

lemma scaled_dim_bound:
  assumes "0 < s" "s \<le> 1" "w \<le> 1073741824"
  shows "max 1 \<lfloor>real_of_int w * s\<rfloor> \<le> 1073741824"
proof (cases "0 \<le> w")
  case True
  then have "real_of_int w * s \<le> real_of_int w * 1" using assms by (intro mult_left_mono) simp_all
  then have "\<lfloor>real_of_int w * s\<rfloor> \<le> \<lfloor>real_of_int w\<rfloor>" by (intro floor_mono) simp
  then have "\<lfloor>real_of_int w * s\<rfloor> \<le> w" by (simp only: floor_of_int)
  then show ?thesis using assms(3) by linarith
next
  case False
  then have "real_of_int w * s \<le> 0" using assms by (simp add: mult_le_0_iff)
  then have "\<lfloor>real_of_int w * s\<rfloor> \<le> \<lfloor>0::real\<rfloor>" by (rule floor_mono)
  then have "\<lfloor>real_of_int w * s\<rfloor> \<le> 0" by (simp only: floor_zero)
  then show ?thesis by linarith
qed

lemma canPack_returns:
  assumes "0 < s" "s \<le> 1" "\<forall>r \<in> set rects. itemWidth r \<le> 1073741824 \<and> itemHeight r \<le> 1073741824"
  shows "canPack pk rects maxSize padding maxBins s \<noteq> None"
proof -
  have "\<forall>r \<in> set (map (scaleItem s) rects). itemWidth r \<le> 1073741824 \<and> itemHeight r \<le> 1073741824"
    using assms scaled_dim_bound [OF assms(1,2)] by (auto simp: scaleItem_def)
  then have "maxDimOf (map (scaleItem s) rects) \<le> 1073741824" by (intro maxDimOf_bound) simp_all
  from packIntoAtlas_returns [OF this, of pk maxSize padding maxBins]
  obtain res where "packIntoAtlas pk (map (scaleItem s) rects) maxSize padding maxBins = Some res"
    by blast
  then show ?thesis by (cases res) (auto simp: canPack_def split: prod.splits)
qed

lemma bisect_invariant:
  assumes "0 \<le> fst t" "fst t < fst (snd t)" "fst (snd t) \<le> 1" "0 < snd (snd t)" "snd (snd t) \<le> 1"
  shows "0 \<le> fst ((bisectStep P ^^ n) t) \<and> fst ((bisectStep P ^^ n) t) < fst (snd ((bisectStep P ^^ n) t))
       \<and> fst (snd ((bisectStep P ^^ n) t)) \<le> 1 \<and> 0 < snd (snd ((bisectStep P ^^ n) t))
       \<and> snd (snd ((bisectStep P ^^ n) t)) \<le> 1"
proof (induction n)
  case 0
  then show ?case using assms by simp
next
  case (Suc n)
  obtain low high best where t: "(bisectStep P ^^ n) t = (low, high, best)"
    by (cases "(bisectStep P ^^ n) t") auto
  with Suc have b: "0 \<le> low" "low < high" "high \<le> 1" "0 < best" "best \<le> 1" by simp_all
  have step: "(bisectStep P ^^ Suc n) t = bisectStep P (low, high, best)" by (simp add: t)
  show ?case
  proof (cases "P ((low + high) / 2)")
    case True
    then have "bisectStep P (low, high, best) = ((low + high) / 2, high, (low + high) / 2)"
      by (simp add: bisectStep_def)
    then show ?thesis unfolding step using b by simp
  next
    case False
    then have "bisectStep P (low, high, best) = (low, (low + high) / 2, best)"
      by (simp add: bisectStep_def)
    then show ?thesis unfolding step using b by simp
  qed
qed

lemma canPack_as_bool:
  assumes "canPack pk rects maxSize padding maxBins s \<noteq> None"
  shows "canPack pk rects maxSize padding maxBins s
           = Some (canPack pk rects maxSize padding maxBins s = Some True)"
  using assms by (cases "canPack pk rects maxSize padding maxBins s") auto

lemma scaled_square_dim:
  fixes s :: real
  assumes "0 < s" "s \<le> 1"
  shows "1 \<le> max 1 \<lfloor>256 * s\<rfloor>" "max 1 \<lfloor>256 * s\<rfloor> \<le> 256"
proof -
  show "1 \<le> max 1 \<lfloor>256 * s\<rfloor>" by simp
  have "256 * s \<le> 256" using assms by simp
  then have "\<lfloor>256 * s\<rfloor> \<le> \<lfloor>256::real\<rfloor>" by (rule floor_mono)
  then have "\<lfloor>256 * s\<rfloor> \<le> 256" by simp
  then show "max 1 \<lfloor>256 * s\<rfloor> \<le> 256" by linarith
qed

lemma canPack_squares:
  fixes s :: real
  assumes "0 < s" "s \<le> 1" "1 \<le> n"
  shows "canPack rowPacker (squares n) 256 0 1 s = Some (int n * max 1 \<lfloor>256 * s\<rfloor> \<le> 256)"
proof -
  define d where "d = max 1 \<lfloor>256 * s\<rfloor>"
  have d: "1 \<le> d" "d \<le> 256" unfolding d_def using scaled_square_dim [OF assms(1,2)] by simp_all
  define items where "items = map (scaleItem s) (squares n)"
  have wh: "\<forall>r \<in> set items. itemWidth r = d \<and> itemHeight r = d"
    by (auto simp: items_def squares_def scaleItem_def d_def)
  have len: "length items = n" by (simp add: items_def squares_def)
  have "maxDimOf items \<le> 256" using wh d by (intro maxDimOf_bound) simp_all
  then have mx: "max (maxDimOf items) 256 = 256" by simp
  have np: "nextPow2 256 = Some 256" by (intro nextPow2_of_pow2 pow2_256) simp
  have pa: "packIntoAtlas rowPacker items 256 0 1 = packLoop rowPacker items 256 0 1 256"
    by (simp add: packIntoAtlas_def mx np)
  have "map itemWidth items = map (\<lambda>_. d) items" using wh by (intro map_cong) simp_all
  then have "map itemWidth items = replicate n d" by (simp add: map_replicate_const len)
  moreover have "sum_list (replicate n d) = int n * d" by (induction n) (simp_all add: algebra_simps)
  ultimately have rw: "rowWidth 0 items = int n * d" by (simp add: rowWidth_def)
  have hs: "\<forall>i \<in> set items. itemHeight i \<le> 256" using wh d by simp
  show ?thesis
  proof (cases "int n * d \<le> 256")
    case True
    then have "length (rowPacker 256 0 items) = 1" using rw hs by (simp add: rowPacker_def list_all_iff)
    then have "packLoop rowPacker items 256 0 1 256 = Some (Inr (256, rowPacker 256 0 items))"
      by (subst packLoop.simps) simp
    then show ?thesis
      using True \<open>length (rowPacker 256 0 items) = 1\<close> pa
      by (simp add: canPack_def items_def [symmetric] d_def [symmetric])
  next
    case False
    then have "n \<noteq> 1" using d by auto
    then have n2: "2 \<le> n" using assms(3) by simp
    have "length (rowPacker 256 0 items) = n" using False rw len by (simp add: rowPacker_def list_all_iff)
    then have "\<not> int (length (rowPacker 256 0 items)) \<le> 1" using n2 by simp
    then have "packLoop rowPacker items 256 0 1 256 = packLoop rowPacker items 256 0 1 512"
      by (subst packLoop.simps) simp
    also have "\<dots> = Some (Inl CouldNotPack)" by (subst packLoop.simps) simp
    finally show ?thesis
      using False pa by (simp add: canPack_def items_def [symmetric] d_def [symmetric])
  qed
qed

lemma squares_dims: "\<forall>r \<in> set (squares n). itemWidth r \<le> 1073741824 \<and> itemHeight r \<le> 1073741824"
  by (simp add: squares_def)

lemma canPack_two_squares_full: "canPack rowPacker (squares 2) 256 0 1 1 = Some False"
  using canPack_squares [of 1 2] by simp

lemma canPack_two_squares_half: "canPack rowPacker (squares 2) 256 0 1 (1 / 2) = Some True"
  using canPack_squares [of "1 / 2" 2] by simp

lemma findBestScale_squares:
  assumes "1 \<le> n" "\<not> int n * max 1 \<lfloor>256 * (1::real)\<rfloor> \<le> 256"
  shows "findBestScaleForSingleBin rowPacker (squares n) 256 0 =
     (if seedFrom (\<lambda>s. int n * max 1 \<lfloor>256 * s\<rfloor> \<le> 256) 0 7 = 7
          \<and> \<not> int n * max 1 \<lfloor>256 * halvedScale 7\<rfloor> \<le> 256
      then Some (Inl CouldNotFitSingleAtlas)
      else Some (Inr (snd (snd ((bisectStep (\<lambda>s. int n * max 1 \<lfloor>256 * s\<rfloor> \<le> 256) ^^ 10)
             (0, halvedScale (seedFrom (\<lambda>s. int n * max 1 \<lfloor>256 * s\<rfloor> \<le> 256) 0 7),
              halvedScale (seedFrom (\<lambda>s. int n * max 1 \<lfloor>256 * s\<rfloor> \<le> 256) 0 7)))))))"
  unfolding findBestScaleForSingleBin_def
  by (rule findBestScaleWith_total [where P = "\<lambda>s. int n * max 1 \<lfloor>256 * s\<rfloor> \<le> 256"])
     (use assms canPack_squares in simp_all)

lemma two_squares_result:
  "findBestScaleForSingleBin rowPacker (squares 2) 256 0 = Some (Inr (1023 / 2048))"
  by (subst findBestScale_squares) (simp_all add: eval_nat_numeral halvedScale_def bisectStep_def)

text \<open>
  What the search does when packing one bin at scale 1.0 fails, for items of at most
  \<open>2 ^ 30\<close> pixels a side: it halves the scale from 1 and tries \<open>1, 1/2, ..., 1/128\<close>
  (the last is the first scale not above the floor 0.01); it raises the hard failure exactly
  when none of these eight scales packs; otherwise, from the first of them that packs, it
  runs exactly 10 refinement turns (\<open>bisectStep\<close>) between 0 and that scale.
\<close>

lemma findBestScaleForSingleBin_search:
  assumes dims: "\<forall>r \<in> set rects. itemWidth r \<le> 1073741824 \<and> itemHeight r \<le> 1073741824"
      and fail1: "canPack pk rects maxSize padding 1 1 = Some False"
  shows "((findBestScaleForSingleBin pk rects maxSize padding = Some (Inl CouldNotFitSingleAtlas))
            = (\<forall>k\<le>7. canPack pk rects maxSize padding 1 (halvedScale k) = Some False))
     \<and> (\<forall>k\<le>7. canPack pk rects maxSize padding 1 (halvedScale k) = Some True
              \<and> (\<forall>j<k. canPack pk rects maxSize padding 1 (halvedScale j) = Some False)
          \<longrightarrow> (\<exists>best. findBestScaleForSingleBin pk rects maxSize padding = Some (Inr best)
                 \<and> best = snd (snd ((bisectStep (\<lambda>s. canPack pk rects maxSize padding 1 s = Some True) ^^ 10)
                                   (0, halvedScale k, halvedScale k)))
                 \<and> canPack pk rects maxSize padding 1 best = Some True
                 \<and> 0 < best \<and> best \<le> 1))"
proof -
  define P where "P = (\<lambda>s. canPack pk rects maxSize padding 1 s = Some True)"
  define cp where "cp = canPack pk rects maxSize padding 1"
  have cp: "\<And>s. 0 < s \<Longrightarrow> s \<le> 1 \<Longrightarrow> cp s = Some (P s)"
    unfolding cp_def P_def using canPack_as_bool [OF canPack_returns [OF _ _ dims]] by blast
  have nP: "\<And>s. 0 < s \<Longrightarrow> s \<le> 1 \<Longrightarrow> (\<not> P s) = (cp s = Some False)"
    using cp by auto
  have P1: "\<not> P 1" using fail1 by (simp add: P_def)
  let ?k = "seedFrom P 0 7"
  let ?best = "\<lambda>k. snd (snd ((bisectStep P ^^ 10) (0, halvedScale k, halvedScale k)))"
  have tot: "findBestScaleForSingleBin pk rects maxSize padding =
     (if ?k = 7 \<and> \<not> P (halvedScale 7) then Some (Inl CouldNotFitSingleAtlas)
      else Some (Inr (?best ?k)))"
    unfolding findBestScaleForSingleBin_def cp_def [symmetric]
    using findBestScaleWith_total [of cp P, OF cp P1] by simp
  have sp: "?k \<le> 7" "\<forall>j. j < ?k \<longrightarrow> \<not> P (halvedScale j)" "?k < 7 \<longrightarrow> P (halvedScale ?k)"
    using seedFrom_spec [of P 0 7] by simp_all
  have A: "(findBestScaleForSingleBin pk rects maxSize padding = Some (Inl CouldNotFitSingleAtlas))
             = (\<forall>k\<le>7. \<not> P (halvedScale k))"
  proof
    assume "findBestScaleForSingleBin pk rects maxSize padding = Some (Inl CouldNotFitSingleAtlas)"
    then have k7: "?k = 7" "\<not> P (halvedScale 7)" using tot by (auto split: if_splits)
    show "\<forall>k\<le>7. \<not> P (halvedScale k)"
    proof (intro allI impI)
      fix k :: nat assume "k \<le> 7"
      then show "\<not> P (halvedScale k)" using k7 sp(2) by (cases "k = 7") auto
    qed
  next
    assume all: "\<forall>k\<le>7. \<not> P (halvedScale k)"
    have "?k = 7" using sp(1,3) all by (cases "?k = 7") auto
    then show "findBestScaleForSingleBin pk rects maxSize padding = Some (Inl CouldNotFitSingleAtlas)"
      using tot all by simp
  qed
  have A': "(\<forall>k\<le>7. \<not> P (halvedScale k)) = (\<forall>k\<le>7. cp (halvedScale k) = Some False)"
    using nP halvedScale_unit by simp
  have B: "\<forall>k\<le>7. P (halvedScale k) \<and> (\<forall>j<k. cp (halvedScale j) = Some False)
          \<longrightarrow> (\<exists>best. findBestScaleForSingleBin pk rects maxSize padding = Some (Inr best)
                 \<and> best = ?best k \<and> P best \<and> 0 < best \<and> best \<le> 1)"
  proof (intro allI impI)
    fix k :: nat
    assume k7: "k \<le> 7" and h: "P (halvedScale k) \<and> (\<forall>j<k. cp (halvedScale j) = Some False)"
    have "\<forall>j<k. \<not> P (halvedScale j)" using h nP halvedScale_unit by simp
    then have k: "?k = k" using seedFrom_unique [where P = P, OF k7] h by simp
    have r: "findBestScaleForSingleBin pk rects maxSize padding = Some (Inr (?best k))"
      using tot k h by auto
    have pb: "P (?best k)" using bisectStep_keeps_packing [where P = P and t = "(0, halvedScale k, halvedScale k)" and n = 10] h
      by simp
    have "0 < ?best k \<and> ?best k \<le> 1"
      using bisect_invariant [where t = "(0, halvedScale k, halvedScale k)" and P = P and n = 10]
        halvedScale_unit [of k] by simp
    then show "\<exists>best. findBestScaleForSingleBin pk rects maxSize padding = Some (Inr best)
                 \<and> best = ?best k \<and> P best \<and> 0 < best \<and> best \<le> 1"
      using r pb by blast
  qed
  show ?thesis
    using A A' B unfolding P_def cp_def by simp
qed

lemma resizePackInputToScale_dims:
  "map itemWidth (resizePackInputToScale rects sc)
     = map (\<lambda>r. max 1 \<lfloor>real_of_int (itemWidth r) * sc\<rfloor>) rects"
  "map itemHeight (resizePackInputToScale rects sc)
     = map (\<lambda>r. max 1 \<lfloor>real_of_int (itemHeight r) * sc\<rfloor>) rects"
  by (simp_all add: resizePackInputToScale_def Let_def comp_def)

text \<open>
  Claim C5 on the code. Two textures of 256x256 for one bin of at most 256 pixels: scale 1
  does not pack; the seeding halves once and finds 1/2, which packs; the ten refinements
  run between 0 and 1/2, every midpoint packs, and the scale returned is 1023/2048. It is
  not the largest scale found to pack, and the textures are resized to 127 pixels where
  128 fit.
\<close>

theorem findBestScale_below_seed:
  "canPack rowPacker (squares 2) 256 0 1 1 = Some False
   \<and> canPack rowPacker (squares 2) 256 0 1 (1 / 2) = Some True
   \<and> findBestScaleForSingleBin rowPacker (squares 2) 256 0 = Some (Inr (1023 / 2048))
   \<and> (1023 / 2048 :: real) < 1 / 2
   \<and> map itemWidth (resizePackInputToScale (squares 2) (1023 / 2048)) = [127, 127]
   \<and> map itemWidth (resizePackInputToScale (squares 2) (1 / 2)) = [128, 128]"
proof -
  have f: "\<lfloor>(261888::real) / 2048\<rfloor> = 127"
    by (rule floor_unique) simp_all
  have w: "map itemWidth (resizePackInputToScale (squares 2) (1023 / 2048)) = [127, 127]"
    unfolding resizePackInputToScale_dims
    by (simp add: squares_def upt_rec f)
  have h: "map itemWidth (resizePackInputToScale (squares 2) (1 / 2)) = [128, 128]"
    unfolding resizePackInputToScale_dims
    by (simp add: squares_def upt_rec)
  show ?thesis
    using canPack_two_squares_full canPack_two_squares_half two_squares_result w h by simp
qed

subsection \<open>The bins of a channel pass\<close>

lemma nextPow2Ceil_eq: "nextPow2Ceil n = nextPow2 n"
  by (simp add: nextPow2Ceil_def nextPow2_def)

lemma nextPow2Ceil_Some:
  assumes "nextPow2Ceil n = Some r"
  shows "is_pow2 r" "n \<le> r" "r \<le> 1073741824"
  using nextPow2_Some [of n r] assms by (simp_all add: nextPow2Ceil_eq)

lemma nextPow2Ceil_pow2_Some:
  assumes "is_pow2 s" "nextPow2Ceil s = Some r"
  shows "r = s" "s \<le> 1073741824"
proof -
  have r: "nextPow2 s = Some r" using assms(2) by (simp add: nextPow2Ceil_eq)
  from nextPow2_Some [OF r] have "s \<le> r" "r \<le> 1073741824" by simp_all
  then show small: "s \<le> 1073741824" by simp
  from nextPow2_of_pow2 [OF assms(1) small] r show "r = s" by simp
qed

text \<open>
  Whatever the packer returns, the loop over the bins leaves square bins whose side is a
  power of two and at least the size it started from; the rects are untouched.
\<close>

lemma squareBins_square:
  assumes "squareBins s bins = Some sq" "b \<in> set sq"
  shows "binWidth b = binHeight b \<and> is_pow2 (binWidth b) \<and> s \<le> binWidth b"
  using assms
proof (induction bins arbitrary: s sq)
  case Nil
  then show ?case by simp
next
  case (Cons b0 bs)
  define m where "m = max (max (orElse (binWidth b0) s) (orElse (binHeight b0) s)) s"
  from Cons.prems(1) obtain r rest where r: "nextPow2Ceil m = Some r"
    and rest: "squareBins r bs = Some rest" and sq: "sq = b0\<lparr>binWidth := r, binHeight := r\<rparr> # rest"
    by (auto simp: m_def split: option.splits)
  have sm: "s \<le> m" by (simp add: m_def)
  note rr = nextPow2Ceil_Some [OF r]
  show ?case
  proof (cases "b = b0\<lparr>binWidth := r, binHeight := r\<rparr>")
    case True
    then show ?thesis using rr sm by simp
  next
    case False
    then have "b \<in> set rest" using Cons.prems(2) sq by simp
    from Cons.IH [OF rest this] rr(2) sm show ?thesis by auto
  qed
qed


lemma squareBins_length:
  "squareBins s bins = Some sq \<Longrightarrow> length sq = length bins"
  by (induction bins arbitrary: s sq) (auto split: option.splits)

text \<open>
  When no bin is larger than the size the packer was run with, the loop over the bins
  sets every bin to that size.
\<close>

lemma squareBins_fixed:
  assumes "is_pow2 s" "\<forall>b \<in> set bins. binWidth b \<le> s \<and> binHeight b \<le> s"
      and "squareBins s bins = Some sq"
  shows "sq = map (\<lambda>b. b\<lparr>binWidth := s, binHeight := s\<rparr>) bins"
  using assms(2,3)
proof (induction bins arbitrary: sq)
  case Nil
  then show ?case by simp
next
  case (Cons b bs)
  have m: "max (max (orElse (binWidth b) s) (orElse (binHeight b) s)) s = s"
    using Cons.prems(1) by (simp add: orElse_def)
  from Cons.prems(2) obtain r where r: "nextPow2Ceil s = Some r"
    by (auto simp: m split: option.splits)
  from nextPow2Ceil_pow2_Some [OF assms(1) r] have rs: "r = s" by simp
  from Cons.prems(2) obtain rest where rest: "squareBins s bs = Some rest"
      "sq = b\<lparr>binWidth := s, binHeight := s\<rparr> # rest"
    using r rs by (auto simp: m)
  from Cons.IH [OF _ rest(1)] Cons.prems(1) have "rest = map (\<lambda>b. b\<lparr>binWidth := s, binHeight := s\<rparr>) bs"
    by simp
  then show ?case using rest(2) by simp
qed

lemma squareBins_returns:
  assumes "is_pow2 s" "s \<le> 1073741824" "\<forall>b \<in> set bins. binWidth b \<le> s \<and> binHeight b \<le> s"
  shows "squareBins s bins = Some (map (\<lambda>b. b\<lparr>binWidth := s, binHeight := s\<rparr>) bins)"
  using assms(3)
proof (induction bins)
  case Nil
  then show ?case by simp
next
  case (Cons b bs)
  have m: "max (max (orElse (binWidth b) s) (orElse (binHeight b) s)) s = s"
    using Cons.prems(1) by (simp add: orElse_def)
  have r: "nextPow2Ceil s = Some s" using nextPow2_of_pow2 [OF assms(1,2)] by (simp add: nextPow2Ceil_eq)
  show ?case using Cons by (simp add: m r)
qed


lemma packIntoAtlas_Inr:
  assumes "packIntoAtlas pk rects maxSize padding maxBins = Some (Inr (s, bins))"
  shows "is_pow2 s" "256 \<le> s" "s \<le> maxSize" "bins = pk s padding rects"
proof -
  have small: "maxDimOf rects \<le> 1073741824"
    using assms packIntoAtlas_None [of pk rects maxSize padding maxBins] by (cases "maxDimOf rects \<le> 1073741824") auto
  from packIntoAtlas_returns [OF small, of pk maxSize padding maxBins] assms
  have "is_pow2 s \<and> 256 \<le> s \<and> s \<le> maxSize \<and> bins = pk s padding rects" by auto
  then show "is_pow2 s" "256 \<le> s" "s \<le> maxSize" "bins = pk s padding rects" by simp_all
qed

text \<open>The bins of a reuse pass, and of a packing pass.\<close>

lemma passBinsOf_reuse_shape:
  assumes "passBinsOf pk opts allMats entries (Some (rects, Some (w, h))) = Some (Inr (s, bins))"
  shows "bins = [\<lparr>binWidth = s, binHeight = s, binRects = map (reuseRect allMats entries) rects\<rparr>]"
  using assms by (auto simp: passBinsOf_def Let_def split: option.splits)

lemma passBinsOf_reuse_unfold:
  assumes "256 \<le> w"
  shows "passBinsOf pk opts allMats entries (Some (rects, Some (w, w))) =
     (case nextPow2Ceil w of None \<Rightarrow> None
      | Some atlasSize \<Rightarrow> Some (Inr (atlasSize,
          [\<lparr>binWidth = atlasSize, binHeight = atlasSize,
            binRects = map (reuseRect allMats entries) rects\<rparr>])))"
proof -
  have ow: "orElse w 0 = w" using assms by (simp add: orElse_def)
  have m: "max (max w w) 256 = w" using assms by simp
  show ?thesis unfolding passBinsOf_def Let_def option.case prod.case ow m ..
qed

lemma passBinsOf_reuse:
  assumes "is_pow2 w" "256 \<le> w"
      and "passBinsOf pk opts allMats entries (Some (rects, Some (w, w))) = Some (Inr (s, bins))"
  shows "s = w"
proof -
  note unf = passBinsOf_reuse_unfold [OF assms(2)]
  from assms(3) [unfolded unf] obtain r where r: "nextPow2Ceil w = Some r"
    by (auto split: option.splits)
  from nextPow2Ceil_pow2_Some [OF assms(1) r] have rs: "r = w" by simp
  from assms(3) [unfolded unf] show "s = w" by (simp add: r rs)
qed

lemma passBinsOf_pack:
  assumes "reuse = None \<or> (\<exists>rects. reuse = Some (rects, None))"
      and "passBinsOf pk opts allMats entries reuse = Some (Inr (s, bins))"
  shows "is_pow2 s \<and> 256 \<le> s \<and> s \<le> optMaxSize opts \<and> bins \<noteq> []
       \<and> (\<exists>items. bins = pk s (optPadding opts) items
             \<and> (items = packInputOf entries \<or> (\<exists>sc. items = resizePackInputToScale (packInputOf entries) sc)))"
proof -
  define sc where "sc = (if (if optMaxBins opts < 1 then 1 else optMaxBins opts) = 1 \<and> optDownscale opts
                    then findBestScaleForSingleBin pk (packInputOf entries) (optMaxSize opts) (optPadding opts)
                    else Some (Inr 1))"
  have unf: "passBinsOf pk opts allMats entries reuse =
     (case sc of None \<Rightarrow> None | Some (Inl e) \<Rightarrow> Some (Inl e)
      | Some (Inr c) \<Rightarrow>
         (case packIntoAtlas pk (if c = 1 then packInputOf entries else resizePackInputToScale (packInputOf entries) c)
                  (optMaxSize opts) (optPadding opts) (if optMaxBins opts < 1 then 1 else optMaxBins opts) of
            None \<Rightarrow> None | Some (Inl e) \<Rightarrow> Some (Inl e)
          | Some (Inr (sz, bins)) \<Rightarrow> if bins = [] then Some (Inl NullDereference) else Some (Inr (sz, bins))))"
    using assms(1) unfolding passBinsOf_def Let_def sc_def by auto
  from assms(2) [unfolded unf] obtain c where c: "sc = Some (Inr c)"
    by (auto split: option.splits sum.splits)
  define items where "items = (if c = 1 then packInputOf entries else resizePackInputToScale (packInputOf entries) c)"
  from assms(2) [unfolded unf c] have
    p: "packIntoAtlas pk items (optMaxSize opts) (optPadding opts) (if optMaxBins opts < 1 then 1 else optMaxBins opts)
        = Some (Inr (s, bins))" and ne: "bins \<noteq> []"
    unfolding items_def by (auto split: option.splits sum.splits if_splits)
  have "items = packInputOf entries \<or> (\<exists>sc. items = resizePackInputToScale (packInputOf entries) sc)"
    by (auto simp: items_def)
  with packIntoAtlas_Inr [OF p] ne show ?thesis by blast
qed

subsection \<open>The result of a channel pass\<close>


lemma passAtlases_Cons:
  "passAtlases (passOf ext ch allMats (b # bs)) =
     \<lparr>atlasIndex = 0, atlasWidth = binWidth b, atlasHeight = binHeight b,
       atlasRects = map (\<lambda>r. layoutRect r (the (rectData r))) (binRects b)\<rparr>
     # map layoutAtlas (enumerate 1 bs)"
  by (simp add: passOf_def layoutAtlas_def)

lemma passAtlases_dims:
  assumes "a \<in> set (passAtlases (passOf ext ch allMats bs))"
  shows "\<exists>b \<in> set bs. atlasWidth a = binWidth b \<and> atlasHeight a = binHeight b"
  using assms by (auto simp: passOf_def layoutAtlas_def enumerate_eq_zip dest: set_zip_rightD)

lemma atlasMap_Inr:
  assumes "atlasMap fl pk opts areas ext allMats prims ch ru reuse = Some (Inr (Some res))"
  shows "\<exists>entries s bins sq.
           collectEntries fl opts areas ch [] allMats = Inr entries \<and> entries \<noteq> []
         \<and> passBinsOf pk opts allMats entries reuse = Some (Inr (s, bins))
         \<and> squareBins s bins = Some sq
         \<and> res = passOf ext ch allMats sq"
  using assms unfolding atlasMap_def
  by (auto split: sum.splits option.splits if_splits)


lemma atlasMap_reuse:
  assumes w: "is_pow2 w" "256 \<le> w"
      and run: "atlasMap fl pk opts areas ext allMats prims ch ru (Some (rects, Some (w, w))) = Some (Inr (Some res))"
  shows "\<exists>entries. res = passOf ext ch allMats
                [\<lparr>binWidth = w, binHeight = w, binRects = map (reuseRect allMats entries) rects\<rparr>]"
proof -
  from atlasMap_Inr [OF run] obtain entries s bins sq where
    pb: "passBinsOf pk opts allMats entries (Some (rects, Some (w, w))) = Some (Inr (s, bins))"
    and sq: "squareBins s bins = Some sq"
    and res: "res = passOf ext ch allMats sq"
    by blast
  note s = passBinsOf_reuse [OF w pb]
  note bins = passBinsOf_reuse_shape [OF pb, unfolded s]
  have "\<forall>b \<in> set bins. binWidth b \<le> w \<and> binHeight b \<le> w" by (simp add: bins)
  from squareBins_fixed [OF w(1) this sq [unfolded s]] res show ?thesis by (auto simp: bins)
qed

lemma rectData_reuseRect: "rectData (reuseRect allMats entries r) \<noteq> None"
  by (simp add: reuseRect_def Let_def)



text \<open>
  A reuse pass returns when the canonical size is a power of two up to \<open>2 ^ 30\<close> and
  every primitive has a material.
\<close>

lemma atlasMap_reuse_returns:
  assumes w: "is_pow2 w" "256 \<le> w" "w \<le> 1073741824"
      and ce: "collectEntries fl opts areas ch [] allMats = Inr entries" "entries \<noteq> []"
      and pr: "ru \<or> (\<forall>p \<in> set prims. material p \<noteq> None)"
  shows "atlasMap fl pk opts areas ext allMats prims ch ru (Some (rects, Some (w, w))) =
     Some (Inr (Some (passOf ext ch allMats
       [\<lparr>binWidth = w, binHeight = w, binRects = map (reuseRect allMats entries) rects\<rparr>])))"
proof -
  have np: "nextPow2Ceil w = Some w" using nextPow2_of_pow2 [OF w(1,3)] by (simp add: nextPow2Ceil_eq)
  have pb: "passBinsOf pk opts allMats entries (Some (rects, Some (w, w))) =
      Some (Inr (w, [\<lparr>binWidth = w, binHeight = w, binRects = map (reuseRect allMats entries) rects\<rparr>]))"
    unfolding passBinsOf_reuse_unfold [OF w(2)] np option.case ..
  have sq: "squareBins w [\<lparr>binWidth = w, binHeight = w, binRects = map (reuseRect allMats entries) rects\<rparr>]
      = Some [\<lparr>binWidth = w, binHeight = w, binRects = map (reuseRect allMats entries) rects\<rparr>]"
    by (subst squareBins_returns [OF w(1,3)]) simp_all
  show ?thesis
    unfolding atlasMap_def ce(1) sum.case pb option.case prod.case sq
    using ce(2) pr by (auto simp: rectData_reuseRect)
qed

lemma atlasMap_pack_nonempty:
  assumes "atlasMap fl pk opts areas ext allMats prims ch ru None = Some (Inr (Some res))"
  shows "passBins res \<noteq> []" "passAtlases res \<noteq> []"
proof -
  from atlasMap_Inr [OF assms] obtain entries s bins sq where
    pb: "passBinsOf pk opts allMats entries None = Some (Inr (s, bins))"
    and sq: "squareBins s bins = Some sq"
    and res: "res = passOf ext ch allMats sq"
    by blast
  from passBinsOf_pack [OF _ pb] have "bins \<noteq> []" by simp
  then have ne: "sq \<noteq> []" using squareBins_length [OF sq] by auto
  then show "passBins res \<noteq> []" using res by (simp add: passOf_def)
  show "passAtlases res \<noteq> []" using res ne by (cases sq) (auto simp: passOf_def)
qed

text \<open>
  A packing pass leaves square bins with a power of two of at least 256 for a side, with
  no assumption on the packer.
\<close>

lemma atlasMap_pack_square:
  assumes run: "atlasMap fl pk opts areas ext allMats prims ch ru None = Some (Inr (Some res))"
      and b: "b \<in> set (passBins res)"
  shows "binWidth b = binHeight b \<and> is_pow2 (binWidth b) \<and> 256 \<le> binWidth b"
proof -
  from atlasMap_Inr [OF run] obtain entries s bins sq where
    pb: "passBinsOf pk opts allMats entries None = Some (Inr (s, bins))"
    and sq: "squareBins s bins = Some sq"
    and res: "res = passOf ext ch allMats sq"
    by blast
  from passBinsOf_pack [OF _ pb] have s: "256 \<le> s" by simp
  have "b \<in> set sq" using b res by (simp add: passOf_def)
  from squareBins_square [OF sq this] s show ?thesis by auto
qed

subsection \<open>The passes of \<open>processAtlas\<close>\<close>

lemma reusePasses_member:
  assumes "reusePasses fl pk opts areas ext allMats prims cm reuse maps = Some (Inr others)"
      and "(ch, res) \<in> set others"
  shows "ch \<noteq> cm \<and> ch \<in> set maps
       \<and> atlasMap fl pk opts areas ext allMats prims ch False (Some reuse) = Some (Inr (Some res))"
  using assms
proof (induction maps arbitrary: others)
  case Nil
  then show ?case by simp
next
  case (Cons c rest)
  show ?case
  proof (cases "c = cm")
    case True
    then show ?thesis using Cons by auto
  next
    case False
    from Cons.prems(1) False obtain r more where
      r: "atlasMap fl pk opts areas ext allMats prims c False (Some reuse) = Some (Inr (Some r))"
      and more: "reusePasses fl pk opts areas ext allMats prims cm reuse rest = Some (Inr more)"
      and others: "others = (c, r) # more"
      by (auto split: option.splits sum.splits)
    show ?thesis
    proof (cases "(ch, res) = (c, r)")
      case True
      then show ?thesis using r False by simp
    next
      case False
      then have "(ch, res) \<in> set more" using Cons.prems(2) others by auto
      from Cons.IH [OF more this] show ?thesis by simp
    qed
  qed
qed

lemma processAtlas_Inr:
  assumes "processAtlas fl pk opts areas ext allMats prims maps = Some (Inr (first # others))"
  shows "\<exists>cm canonical. first = (cm, canonical)
         \<and> cm = (if Basecolor \<in> set maps then Basecolor else hd maps)
         \<and> atlasMap fl pk opts areas ext allMats prims cm True None = Some (Inr (Some canonical))
         \<and> reusePasses fl pk opts areas ext allMats prims cm
             (case passAtlases canonical of [] \<Rightarrow> ([], None)
              | a # _ \<Rightarrow> (atlasRects a, Some (atlasWidth a, atlasHeight a))) maps = Some (Inr others)"
proof -
  have ne: "maps \<noteq> []" using assms by (auto simp: processAtlas_def)
  show ?thesis
    using assms unfolding processAtlas_def Let_def
    by (simp only: ne if_False split: option.splits sum.splits) auto
qed

text \<open>
  Every bin of every pass of \<^verbatim>\<open>processAtlas\<close> is square, with a power of two of at least
  256 for a side; the bound by \<open>maxSize\<close> is missing from this list.
\<close>

lemma passes_square_pow2:
  assumes run: "processAtlas fl pk opts areas ext allMats prims maps = Some (Inr passes)"
      and pass: "(ch, res) \<in> set passes" and b: "b \<in> set (passBins res)"
  shows "binWidth b = binHeight b \<and> is_pow2 (binWidth b) \<and> 256 \<le> binWidth b"
proof -
  obtain first others where passes: "passes = first # others" using pass by (cases passes) auto
  from processAtlas_Inr [OF run [unfolded passes]] obtain cm canonical where
    first: "first = (cm, canonical)"
    and can: "atlasMap fl pk opts areas ext allMats prims cm True None = Some (Inr (Some canonical))"
    and oth: "reusePasses fl pk opts areas ext allMats prims cm
             (case passAtlases canonical of [] \<Rightarrow> ([], None)
              | a # _ \<Rightarrow> (atlasRects a, Some (atlasWidth a, atlasHeight a))) maps = Some (Inr others)"
    by blast
  note sqc = atlasMap_pack_square [OF can]
  show ?thesis
  proof (cases "(ch, res) = (cm, canonical)")
    case True
    then show ?thesis using sqc [of b] b by blast
  next
    case False
    then have mem: "(ch, res) \<in> set others" using pass passes first by auto
    from atlasMap_Inr [OF can] obtain sq where cres: "canonical = passOf ext cm allMats sq" by blast
    from atlasMap_pack_nonempty(1) [OF can] obtain b0 rest where sqv: "sq = b0 # rest"
      using cres by (cases sq) (auto simp: passOf_def)
    have "b0 \<in> set (passBins canonical)" using cres sqv by (simp add: passOf_def)
    from sqc [OF this] have b0: "binWidth b0 = binHeight b0" "is_pow2 (binWidth b0)" "256 \<le> binWidth b0"
      by blast+
    define rects where "rects = map (\<lambda>r. layoutRect r (the (rectData r))) (binRects b0)"
    have oth': "reusePasses fl pk opts areas ext allMats prims cm
                  (rects, Some (binWidth b0, binWidth b0)) maps = Some (Inr others)"
      using oth unfolding cres sqv rects_def by (simp add: passAtlases_Cons b0(1) [symmetric])
    from reusePasses_member [OF oth' mem]
    have "atlasMap fl pk opts areas ext allMats prims ch False (Some (rects, Some (binWidth b0, binWidth b0)))
            = Some (Inr (Some res))" by simp
    from atlasMap_reuse [OF b0(2,3) this] b b0 show ?thesis by (auto simp: passOf_def)
  qed
qed

subsection \<open>The passes over the sample document\<close>

lemma nearestPow2_256: "nearestPow2 256 = 256"
  by (intro nearestPow2_idem pow2_256)

lemma nextPow2_256: "nextPow2 256 = Some 256"
  by (intro nextPow2_of_pow2 pow2_256) simp

lemma targetSizing_sample:
  assumes "256 \<le> maxSize"
  shows "targetSizing False mode a b maxSize 256 256 = 256"
proof -
  have m: "min 256 maxSize = 256" using assms by simp
  show ?thesis
    unfolding targetSizing_def Let_def if_False m nearestPow2_js_def option.case nearestPow2_256
    using assms by (simp add: nearestPow2_256)
qed

lemma sizeEntry_sample:
  assumes "\<not> optDownscale opts" "256 \<le> optMaxSize opts"
  shows "sizeEntry fl opts [] mat tex 256 256 =
           \<lparr>entryTexture = Some tex, entryWidth = 256, entryHeight = 256, entryMaterials = [mat]\<rparr>"
  using assms(1) by (simp add: sizeEntry_def ceilDims_def targetSizing_sample [OF assms(2)])

lemma collectEntries_sample:
  assumes "\<not> optDownscale opts" "256 \<le> optMaxSize opts" "ch = Basecolor \<or> ch = Normal"
  shows "collectEntries fl opts [] ch [] sampleMaterials
         = Inr [sampleEntry ch 0 ''A'', sampleEntry ch 1 ''B'']"
  using assms(3)
  by (auto simp: sampleMaterials_def sizeEntry_sample [OF assms(1,2)] sampleEntry_def
        sampleMaterial_def sampleTexture_def hasEntry_def)


lemma paddedOpts_plain: "\<not> optDownscale paddedOpts" "optMaxSize paddedOpts = 512"
  "optPadding paddedOpts = 2" "optMaxBins paddedOpts = 1"
  by (simp_all add: paddedOpts_def sampleOpts_def)

lemma packInputOf_sample:
  "packInputOf [sampleEntry ch 0 ''A'', sampleEntry ch 1 ''B''] =
     [\<lparr>itemId = 0, itemWidth = 256, itemHeight = 256, itemData = sampleEntry ch 0 ''A''\<rparr>,
      \<lparr>itemId = 1, itemWidth = 256, itemHeight = 256, itemData = sampleEntry ch 1 ''B''\<rparr>]"
  by (simp add: packInputOf_def sampleEntry_def)

lemma passBinsOf_plain:
  assumes "\<not> optDownscale opts"
  shows "passBinsOf pk opts allMats es None =
     (case packIntoAtlas pk (packInputOf es) (optMaxSize opts) (optPadding opts)
             (if optMaxBins opts < 1 then 1 else optMaxBins opts) of
        None \<Rightarrow> None
      | Some (Inl e) \<Rightarrow> Some (Inl e)
      | Some (Inr (sz, bins)) \<Rightarrow>
          if bins = [] then Some (Inl NullDereference) else Some (Inr (sz, bins)))"
  using assms by (simp add: passBinsOf_def)



text \<open>
  With the padding 2 the row of the two textures is 514 pixels wide; it does not fit the
  size 256 and fits the size 512, whose free area reaches 514.
\<close>

lemma passBinsOf_padded:
  "passBinsOf paddedRowPacker paddedOpts allMats [sampleEntry ch 0 ''A'', sampleEntry ch 1 ''B''] None
   = Some (Inr (512, [\<lparr>binWidth = 514, binHeight = 256,
                       binRects = [packedRect ch 0 ''A'' 0, packedRect ch 1 ''B'' 258]\<rparr>]))"
proof -
  define items where "items = packInputOf [sampleEntry ch 0 ''A'', sampleEntry ch 1 ''B'']"
  have md: "maxDimOf items = 256" unfolding items_def packInputOf_sample by (simp add: maxDimOf_def)
  have rp1: "length (paddedRowPacker 256 2 items) = 2"
    unfolding items_def packInputOf_sample by (simp add: paddedRowPacker_def rowWidth_def)
  have rp: "paddedRowPacker 512 2 items =
      [\<lparr>binWidth = 514, binHeight = 256,
        binRects = [packedRect ch 0 ''A'' 0, packedRect ch 1 ''B'' 258]\<rparr>]"
    unfolding items_def packInputOf_sample by (simp add: paddedRowPacker_def rowWidth_def packedRect_def)
  have "packLoop paddedRowPacker items 512 2 1 256 = packLoop paddedRowPacker items 512 2 1 512"
    by (subst packLoop.simps) (simp add: rp1)
  also have "\<dots> = Some (Inr (512, paddedRowPacker 512 2 items))"
    by (subst packLoop.simps) (simp add: rp)
  finally have "packIntoAtlas paddedRowPacker items 512 2 1 = Some (Inr (512, paddedRowPacker 512 2 items))"
    by (simp add: packIntoAtlas_def md nextPow2_256)
  then have "packIntoAtlas paddedRowPacker items (optMaxSize paddedOpts) (optPadding paddedOpts)
        (if optMaxBins paddedOpts < 1 then 1 else optMaxBins paddedOpts)
      = Some (Inr (512, paddedRowPacker 512 2 items))"
    by (simp add: paddedOpts_plain)
  then show ?thesis
    unfolding passBinsOf_plain [OF paddedOpts_plain(1)] items_def [symmetric] by (simp add: rp)
qed

lemma squareBins_padded:
  "squareBins 512 [\<lparr>binWidth = 514, binHeight = 256, binRects = rs\<rparr>]
     = Some [\<lparr>binWidth = 1024, binHeight = 1024, binRects = rs\<rparr>]"
proof -
  have "nextPow2 514 = Some 1024" by (rule nextPow2_between [OF pow2_1024]) simp_all
  then have "nextPow2Ceil 514 = Some 1024" by (simp add: nextPow2Ceil_eq)
  then show ?thesis by (simp add: orElse_def)
qed

lemma rectData_packedRect: "rectData (packedRect ch i n x) = Some (sampleEntry ch i n)"
  by (simp add: packedRect_def)

lemma material_trianglePrim: "(\<exists>p \<in> set [trianglePrim]. material p = None) = False"
  by (simp add: trianglePrim_def)



lemma atlasMap_padded:
  assumes "ch = Basecolor \<or> ch = Normal"
  shows "atlasMap fl paddedRowPacker paddedOpts [] False sampleMaterials [trianglePrim] ch True None =
     Some (Inr (Some (passOf False ch sampleMaterials
          [\<lparr>binWidth = 1024, binHeight = 1024,
            binRects = [packedRect ch 0 ''A'' 0, packedRect ch 1 ''B'' 258]\<rparr>])))"
proof -
  have ce: "collectEntries fl paddedOpts [] ch [] sampleMaterials
         = Inr [sampleEntry ch 0 ''A'', sampleEntry ch 1 ''B'']"
    by (rule collectEntries_sample) (simp_all add: assms paddedOpts_plain)
  show ?thesis
    unfolding atlasMap_def ce sum.case passBinsOf_padded option.case prod.case squareBins_padded
    by (simp add: rectData_packedRect)
qed

text \<open>
  The runs of \<^verbatim>\<open>processAtlas\<close> over the sample document, for the base colour and the
  normal channel.
\<close>

lemma reuse_sample_returns:
  assumes "is_pow2 w" "256 \<le> w" "w \<le> 1073741824" "\<not> optDownscale opts" "256 \<le> optMaxSize opts"
  shows "atlasMap fl pk opts [] False sampleMaterials [trianglePrim] Normal False (Some (rects, Some (w, w))) =
     Some (Inr (Some (passOf False Normal sampleMaterials
       [\<lparr>binWidth = w, binHeight = w,
         binRects = map (reuseRect sampleMaterials [sampleEntry Normal 0 ''A'', sampleEntry Normal 1 ''B''])
                      rects\<rparr>])))"
proof -
  have ce: "collectEntries fl opts [] Normal [] sampleMaterials
         = Inr [sampleEntry Normal 0 ''A'', sampleEntry Normal 1 ''B'']"
    by (rule collectEntries_sample) (simp_all add: assms)
  show ?thesis
    by (rule atlasMap_reuse_returns [OF assms(1-3) ce]) (simp_all add: trianglePrim_def)
qed



lemma processAtlas_padded:
  "processAtlas fl paddedRowPacker paddedOpts [] False sampleMaterials [trianglePrim] [Basecolor, Normal] =
     Some (Inr [(Basecolor, passOf False Basecolor sampleMaterials
                   [\<lparr>binWidth = 1024, binHeight = 1024,
                     binRects = [packedRect Basecolor 0 ''A'' 0, packedRect Basecolor 1 ''B'' 258]\<rparr>]),
                (Normal, passOf False Normal sampleMaterials
                   [\<lparr>binWidth = 1024, binHeight = 1024,
                     binRects = map (reuseRect sampleMaterials [sampleEntry Normal 0 ''A'', sampleEntry Normal 1 ''B''])
                        [layoutRect (packedRect Basecolor 0 ''A'' 0) (sampleEntry Basecolor 0 ''A''),
                         layoutRect (packedRect Basecolor 1 ''B'' 258) (sampleEntry Basecolor 1 ''B'')]\<rparr>])])"
proof -
  note r = reuse_sample_returns [OF pow2_1024 _ _ paddedOpts_plain(1), of fl paddedRowPacker]
  show ?thesis
    unfolding processAtlas_def Let_def
    by (simp add: atlasMap_padded passAtlases_Cons rectData_packedRect r paddedOpts_plain)
qed

subsection \<open>Square power-of-two bins\<close>

text \<open>
  Claim C9 on the code. The two textures of 256x256 of the sample document, one bin, a
  maximum size of 512 and the padding 2: \<^verbatim>\<open>packIntoAtlas\<close> settles on the size 512, the
  packer reports a bin of 514x256, and the loop over the bins rounds the larger of bin and
  size up to the next power of two, with no bound by \<open>maxSize\<close>: the atlas of the base
  colour is 1024x1024, and the normal channel, which reuses its size, is 1024x1024 as
  well. The bins are square powers of two of at least 256 (\<open>passes_square_pow2\<close>), and
  twice the maximum size.
\<close>

theorem bins_exceed_maxSize:
  "\<exists>canonical reused.
      processAtlas fl paddedRowPacker paddedOpts [] False sampleMaterials [trianglePrim] [Basecolor, Normal]
        = Some (Inr [(Basecolor, canonical), (Normal, reused)])
    \<and> optMaxSize paddedOpts = 512 \<and> optPadding paddedOpts = 2 \<and> optMaxBins paddedOpts = 1
    \<and> map (\<lambda>b. (binWidth b, binHeight b)) (passBins canonical) = [(1024, 1024)]
    \<and> map (\<lambda>b. (binWidth b, binHeight b)) (passBins reused) = [(1024, 1024)]
    \<and> map (\<lambda>a. (atlasWidth a, atlasHeight a)) (passAtlases canonical) = [(1024, 1024)]
    \<and> map (\<lambda>a. (atlasWidth a, atlasHeight a)) (passAtlases reused) = [(1024, 1024)]"
  unfolding processAtlas_padded
  by (simp add: paddedOpts_plain passOf_def layoutAtlas_def)

subsection \<open>Cross-Map Rect Reuser\<close>





lemma findMaterialByName_Some:
  assumes "findMaterialByName n allMats = Some m"
  shows "m \<in> set allMats" "displayName m = n"
  using assms by (auto simp: findMaterialByName_def find_Some_iff split: if_splits)


























subsection \<open>Input defects\<close>

text \<open>
  The entries of the loop over the materials hold textures of the document whose
  dimensions were read; with that, the loop cannot get past a material whose texture has
  no readable dimensions.
\<close>

lemma collectEntries_errors:
  "collectEntries fl opts areas ch entries ms = Inl e \<Longrightarrow>
     \<exists>tid. e = CannotReadDimensions tid \<or> e = UnsupportedImage tid"
  by (induction ms arbitrary: entries) (auto split: option.splits if_splits imageInfo.splits)

lemma collectEntries_defect:
  assumes ids: "\<forall>m \<in> S. \<forall>m' \<in> S. \<forall>t t'. matTextures m ch = Some t \<longrightarrow> matTextures m' ch = Some t'
                  \<longrightarrow> texId t = texId t' \<longrightarrow> t = t'"
      and m: "m \<in> set ms" "matTextures m ch = Some tex" "unreadable tex"
      and sub: "set ms \<subseteq> S"
      and inv: "\<forall>e \<in> set entries. \<exists>m' \<in> S. \<exists>t. entryTexture e = Some t \<and> matTextures m' ch = Some t
                   \<and> \<not> unreadable t"
  shows "\<exists>e. collectEntries fl opts areas ch entries ms = Inl e"
  using m(1) sub inv
proof (induction ms arbitrary: entries)
  case Nil
  then show ?case by simp
next
  case (Cons mat rest)
  have matS: "mat \<in> S" and restS: "set rest \<subseteq> S" using Cons.prems(2) by simp_all
  show ?case
  proof (cases "matTextures mat ch")
    case None
    then have "mat \<noteq> m" using m(2) by auto
    then have "m \<in> set rest" using Cons.prems(1) by simp
    from Cons.IH [OF this restS Cons.prems(3)] show ?thesis using None by simp
  next
    case (Some t)
    show ?thesis
    proof (cases "texImage t")
      case None
      then have "\<not> unreadable t" by (simp add: unreadable_def)
      then have "mat \<noteq> m" using m(2,3) Some by auto
      then have "m \<in> set rest" using Cons.prems(1) by simp
      from Cons.IH [OF this restS Cons.prems(3)] show ?thesis using Some None by simp
    next
      case img: (Some img)
      show ?thesis
      proof (cases "hasEntry (texId t) entries")
        case True
        then obtain e0 t0 where e0: "e0 \<in> set entries" "entryTexture e0 = Some t0" "texId t0 = texId t"
          by (auto simp: hasEntry_def)
        from Cons.prems(3) e0(1,2) obtain m' where m': "m' \<in> S" "matTextures m' ch = Some t0"
            "\<not> unreadable t0" by fastforce
        from ids m'(1) matS m'(2) Some e0(3) have "t0 = t" by blast
        then have "\<not> unreadable t" using m'(3) by simp
        then have "mat \<noteq> m" using m(2,3) Some by auto
        then have rest: "m \<in> set rest" using Cons.prems(1) by simp
        have inv': "\<forall>e \<in> set (addMaterial (texId t) mat entries). \<exists>m' \<in> S. \<exists>t. entryTexture e = Some t
                      \<and> matTextures m' ch = Some t \<and> \<not> unreadable t"
          using Cons.prems(3) by (fastforce simp: addMaterial_def)
        from Cons.IH [OF rest restS inv'] show ?thesis using Some img True by simp
      next
        case False
        show ?thesis
        proof (cases "unreadable t")
          case True
          then show ?thesis using Some img False
            by (auto simp: unreadable_def split: imageInfo.splits)
        next
          case readable: False
          then obtain w h where wh: "img = Dimensions w h" "w \<noteq> 0" "h \<noteq> 0"
            using img by (cases img) (auto simp: unreadable_def)
          have "mat \<noteq> m" using readable m(2,3) Some by auto
          then have rest: "m \<in> set rest" using Cons.prems(1) by simp
          have "entryTexture (sizeEntry fl opts areas mat t w h) = Some t"
            by (simp add: sizeEntry_def Let_def split: prod.splits)
          then have inv': "\<forall>e \<in> set (entries @ [sizeEntry fl opts areas mat t w h]). \<exists>m' \<in> S. \<exists>t.
                      entryTexture e = Some t \<and> matTextures m' ch = Some t \<and> \<not> unreadable t"
            using Cons.prems(3) matS Some readable by auto
          from Cons.IH [OF rest restS inv'] show ?thesis using Some img False wh by simp
        qed
      qed
    qed
  qed
qed

lemma atlasMap_defect:
  assumes ids: "\<forall>m \<in> set allMats. \<forall>m' \<in> set allMats. \<forall>t t'. matTextures m ch = Some t
                  \<longrightarrow> matTextures m' ch = Some t' \<longrightarrow> texId t = texId t' \<longrightarrow> t = t'"
      and m: "m \<in> set allMats" "matTextures m ch = Some tex" "unreadable tex"
  shows "\<exists>tid. atlasMap fl pk opts areas ext allMats prims ch ru reuse = Some (Inl (CannotReadDimensions tid))
             \<or> atlasMap fl pk opts areas ext allMats prims ch ru reuse = Some (Inl (UnsupportedImage tid))"
proof -
  from collectEntries_defect [OF ids m _, of "[]" fl opts areas] obtain e where
    e: "collectEntries fl opts areas ch [] allMats = Inl e" by auto
  from collectEntries_errors [OF e] e show ?thesis by (auto simp: atlasMap_def)
qed

lemma reusePasses_covers:
  assumes "reusePasses fl pk opts areas ext allMats prims cm reuse maps = Some (Inr others)"
      and "ch \<in> set maps" "ch \<noteq> cm"
  shows "\<exists>res. (ch, res) \<in> set others"
  using assms
proof (induction maps arbitrary: others)
  case Nil
  then show ?case by simp
next
  case (Cons c rest)
  show ?case
  proof (cases "c = cm")
    case True
    then show ?thesis using Cons by auto
  next
    case False
    from Cons.prems(1) False obtain r more where
      more: "reusePasses fl pk opts areas ext allMats prims cm reuse rest = Some (Inr more)"
      and others: "others = (c, r) # more"
      by (auto split: option.splits sum.splits)
    show ?thesis
    proof (cases "ch = c")
      case True
      then show ?thesis using others by auto
    next
      case False
      then have "ch \<in> set rest" using Cons.prems(2) by simp
      from Cons.IH [OF more this Cons.prems(3)] others show ?thesis by auto
    qed
  qed
qed

lemma processAtlas_defect:
  assumes fails: "\<And>ru reuse. \<exists>e. atlasMap fl pk opts areas ext allMats prims ch ru reuse = Some (Inl e)"
      and ch: "ch \<in> set maps"
  shows "processAtlas fl pk opts areas ext allMats prims maps \<noteq> Some (Inr passes)"
proof
  assume run: "processAtlas fl pk opts areas ext allMats prims maps = Some (Inr passes)"
  have "passes \<noteq> []" using run ch
    by (auto simp: processAtlas_def Let_def split: option.splits sum.splits if_splits)
  then obtain first others where passes: "passes = first # others" by (cases passes) auto
  from processAtlas_Inr [OF run [unfolded passes]] obtain cm canonical where
    can: "atlasMap fl pk opts areas ext allMats prims cm True None = Some (Inr (Some canonical))"
    and oth: "reusePasses fl pk opts areas ext allMats prims cm
             (case passAtlases canonical of [] \<Rightarrow> ([], None)
              | a # _ \<Rightarrow> (atlasRects a, Some (atlasWidth a, atlasHeight a))) maps = Some (Inr others)"
    by blast
  have "ch \<noteq> cm" using can fails [of True None] by auto
  from reusePasses_covers [OF oth ch this] obtain res where "(ch, res) \<in> set others" by blast
  from reusePasses_member [OF oth this] obtain reuse where
    "atlasMap fl pk opts areas ext allMats prims ch False reuse = Some (Inr (Some res))" by blast
  then show False using fails [of False reuse] by auto
qed

text \<open>
  A primitive without \<^verbatim>\<open>POSITION\<close> adds nothing to what the merge collects, and the
  result of the merge is decided by what the other primitives give.
\<close>

lemma merge_with_bare:
  assumes "getAttribute p POSITION = None"
  shows "collectPrims (ps @ p # qs) = collectPrims (ps @ qs)"
    and "mergePrimitivesIntoOne (ps @ p # qs) =
       (if positions (collectPrims (ps @ qs)) = [] \<or> indicesAcc (collectPrims (ps @ qs)) = []
        then ps @ p # qs
        else [\<lparr>attributes = mergedAttributes (collectPrims (ps @ qs)),
               indices = Some (mergedIndexArray (indicesAcc (collectPrims (ps @ qs)))),
               material = material (hd (ps @ [p]))\<rparr>])"
proof -
  show c: "collectPrims (ps @ p # qs) = collectPrims (ps @ qs)"
    unfolding collectPrims_def using assms by (rule foldl_collectPrim_skip)
  have h: "hd (ps @ p # qs) = hd (ps @ [p])" by (cases ps) simp_all
  show "mergePrimitivesIntoOne (ps @ p # qs) =
       (if positions (collectPrims (ps @ qs)) = [] \<or> indicesAcc (collectPrims (ps @ qs)) = []
        then ps @ p # qs
        else [\<lparr>attributes = mergedAttributes (collectPrims (ps @ qs)),
               indices = Some (mergedIndexArray (indicesAcc (collectPrims (ps @ qs)))),
               material = material (hd (ps @ [p]))\<rparr>])"
  proof (cases "length (ps @ p # qs) \<le> 1")
    case True
    then have e: "ps = []" "qs = []" by (cases ps; simp)+
    show ?thesis by (simp add: e mergePrimitivesIntoOne_def collectPrims_def emptyAcc_def)
  next
    case False
    then have l: "(length (ps @ p # qs) \<le> 1) = False" by simp
    show ?thesis
      unfolding mergePrimitivesIntoOne_def Let_def c h l if_False ..
  qed
qed

lemma sampleTriangles_collected:
  "collectPrims [trianglePrim, trianglePrim] =
     \<lparr>positions = array oneTriangle @ array oneTriangle, normals = [], tangents = [], uvs = [],
      indicesAcc = [0, 1, 2, 3, 4, 5], indexBase = 6\<rparr>"
  by (simp add: collectPrims_def collectPrim_def emptyAcc_def trianglePrim_def getAttribute_def
        addAttr_def oneTriangle_def)

text \<open>
  Claim C7, amended. A texture whose image dimensions cannot be read makes the pass of
  its channel throw, whatever the other options are, and \<^verbatim>\<open>processAtlas\<close> over that
  channel does not return a layout; texture identities are taken to be unique in the
  document. A primitive without \<^verbatim>\<open>POSITION\<close> is not a failure. It adds nothing to what
  the merge collects; when the other primitives of the mesh give no vertex or no index
  the mesh is left as it is, the primitive included; otherwise the mesh becomes one
  primitive merged from the others, and this takes the material of the first primitive of
  the mesh, which may be the one without \<^verbatim>\<open>POSITION\<close>.
\<close>

theorem input_defects_amended:
  assumes ids: "\<forall>m \<in> set allMats. \<forall>m' \<in> set allMats. \<forall>t t'. matTextures m ch = Some t
                  \<longrightarrow> matTextures m' ch = Some t' \<longrightarrow> texId t = texId t' \<longrightarrow> t = t'"
      and m: "m \<in> set allMats" "matTextures m ch = Some tex" "unreadable tex"
      and ch: "ch \<in> set maps"
      and p: "getAttribute p POSITION = None"
  shows "(\<exists>tid. atlasMap fl pk opts areas ext allMats prims ch ru reuse = Some (Inl (CannotReadDimensions tid))
              \<or> atlasMap fl pk opts areas ext allMats prims ch ru reuse = Some (Inl (UnsupportedImage tid)))
       \<and> (\<forall>passes. processAtlas fl pk opts areas ext allMats prims maps \<noteq> Some (Inr passes))
       \<and> collectPrims (ps @ p # qs) = collectPrims (ps @ qs)
       \<and> mergePrimitivesIntoOne (ps @ p # qs) =
           (if positions (collectPrims (ps @ qs)) = [] \<or> indicesAcc (collectPrims (ps @ qs)) = []
            then ps @ p # qs
            else [\<lparr>attributes = mergedAttributes (collectPrims (ps @ qs)),
                   indices = Some (mergedIndexArray (indicesAcc (collectPrims (ps @ qs)))),
                   material = material (hd (ps @ [p]))\<rparr>])"
proof -
  note d = atlasMap_defect [OF ids m]
  have "\<exists>e. atlasMap fl pk opts areas ext allMats prims ch ru' r = Some (Inl e)" for ru' r
    using d [of fl pk opts areas ext prims ru' r] by auto
  from processAtlas_defect [of fl pk opts areas ext allMats prims ch maps, OF this ch]
  have "\<forall>passes. processAtlas fl pk opts areas ext allMats prims maps \<noteq> Some (Inr passes)" by blast
  then show ?thesis
    using d [of fl pk opts areas ext prims ru reuse] merge_with_bare [OF p, of ps qs] by blast
qed

theorem input_defects_amended_witness:
  "\<forall>fl. (\<exists>tid. atlasMap fl rowPacker (sampleOpts 512 1) [] False (sampleMaterials @ [brokenMaterial])
                 [trianglePrim] Basecolor True None = Some (Inl (CannotReadDimensions tid))
          \<or> atlasMap fl rowPacker (sampleOpts 512 1) [] False (sampleMaterials @ [brokenMaterial])
                 [trianglePrim] Basecolor True None = Some (Inl (UnsupportedImage tid)))
   \<and> collectPrims [trianglePrim, barePrim, trianglePrim] = collectPrims [trianglePrim, trianglePrim]
   \<and> mergePrimitivesIntoOne [trianglePrim, barePrim, trianglePrim]
       = mergePrimitivesIntoOne [trianglePrim, trianglePrim]"
proof
  fix fl :: "real \<Rightarrow> real"
  have ids: "\<forall>m \<in> set (sampleMaterials @ [brokenMaterial]). \<forall>m' \<in> set (sampleMaterials @ [brokenMaterial]).
               \<forall>t t'. matTextures m Basecolor = Some t \<longrightarrow> matTextures m' Basecolor = Some t'
                  \<longrightarrow> texId t = texId t' \<longrightarrow> t = t'"
    by (auto simp: sampleMaterials_def sampleMaterial_def brokenMaterial_def sampleTexture_def)
  have m: "brokenMaterial \<in> set (sampleMaterials @ [brokenMaterial])"
      "matTextures brokenMaterial Basecolor = Some (sampleTexture 7 ''C_color'' 0 0)"
      "unreadable (sampleTexture 7 ''C_color'' 0 0)"
    by (simp_all add: brokenMaterial_def unreadable_def sampleTexture_def)
  have p: "getAttribute barePrim POSITION = None" by (simp add: barePrim_def getAttribute_def)
  have two: "mergePrimitivesIntoOne [trianglePrim, trianglePrim] =
       [\<lparr>attributes = mergedAttributes (collectPrims [trianglePrim, trianglePrim]),
         indices = Some (mergedIndexArray (indicesAcc (collectPrims [trianglePrim, trianglePrim]))),
         material = material trianglePrim\<rparr>]"
    unfolding mergePrimitivesIntoOne_def Let_def
    by (simp add: sampleTriangles_collected oneTriangle_def)
  from input_defects_amended [where maps = "[Basecolor]" and pk = rowPacker and opts = "sampleOpts 512 1"
      and areas = "[]" and ext = False and reuse = None and fl = fl and prims = "[trianglePrim]"
      and ru = True and ps = "[trianglePrim]" and qs = "[trianglePrim]", OF ids m _ p]
  show "(\<exists>tid. atlasMap fl rowPacker (sampleOpts 512 1) [] False (sampleMaterials @ [brokenMaterial])
                 [trianglePrim] Basecolor True None = Some (Inl (CannotReadDimensions tid))
          \<or> atlasMap fl rowPacker (sampleOpts 512 1) [] False (sampleMaterials @ [brokenMaterial])
                 [trianglePrim] Basecolor True None = Some (Inl (UnsupportedImage tid)))
   \<and> collectPrims [trianglePrim, barePrim, trianglePrim] = collectPrims [trianglePrim, trianglePrim]
   \<and> mergePrimitivesIntoOne [trianglePrim, barePrim, trianglePrim]
       = mergePrimitivesIntoOne [trianglePrim, trianglePrim]"
    using two by (simp add: sampleTriangles_collected oneTriangle_def)
qed

text \<open>
  Claim C7 as the specification has it fails for the primitive: a mesh of a triangle, a
  primitive without \<^verbatim>\<open>POSITION\<close> and a second triangle is merged into the two
  triangles. The call returns, and the primitive is gone from the mesh.
\<close>

theorem bare_primitive_skipped:
  "getAttribute barePrim POSITION = None
   \<and> mergePrimitivesIntoOne [trianglePrim, barePrim, trianglePrim] =
       [\<lparr>attributes = [(POSITION, createAccessor (array oneTriangle @ array oneTriangle) VEC3)],
         indices = Some (Uint16Array [0, 1, 2, 3, 4, 5]), material = Some 0\<rparr>]"
proof -
  have p: "getAttribute barePrim POSITION = None" by (simp add: barePrim_def getAttribute_def)
  have c: "collectPrims [trianglePrim, barePrim, trianglePrim] = collectPrims [trianglePrim, trianglePrim]"
    unfolding collectPrims_def
    using foldl_collectPrim_skip [OF p, of emptyAcc "[trianglePrim]" "[trianglePrim]"] by simp
  have "mergePrimitivesIntoOne [trianglePrim, barePrim, trianglePrim] =
       [\<lparr>attributes = [(POSITION, createAccessor (array oneTriangle @ array oneTriangle) VEC3)],
         indices = Some (Uint16Array [0, 1, 2, 3, 4, 5]), material = Some 0\<rparr>]"
    unfolding mergePrimitivesIntoOne_def Let_def c sampleTriangles_collected
    by (simp add: mergedAttributes_def mergedIndexArray_def newUint16Array_def oneTriangle_def
          trianglePrim_def)
  then show ?thesis using p by simp
qed

end
